theory Spec2Isabelle
  imports Main "HOL-Library.Word" "HOL-Library.AList"
begin


section \<open>Values of the runtime\<close>

text \<open>
  A Buffer is a list of bytes.  \<open>toHex\<close> is \<open>buf.toString('hex')\<close> and \<open>fromHex\<close> is
  \<open>Buffer.from(s, 'hex')\<close>, which decodes pairs of hexadecimal digits and stops at the
  first pair that is not one (a trailing single character is dropped).
\<close>

type_synonym byte = "8 word"
type_synonym buffer = "byte list"

definition hexDigit :: "nat \<Rightarrow> char" where
  "hexDigit n = ''0123456789abcdef'' ! n"

definition hexVal :: "char \<Rightarrow> nat option" where
  "hexVal c =
     (let n = (of_char c :: nat) in
      if 48 \<le> n \<and> n \<le> 57 then Some (n - 48)
      else if 97 \<le> n \<and> n \<le> 102 then Some (n - 87)
      else if 65 \<le> n \<and> n \<le> 70 then Some (n - 55)
      else None)"

definition toHex :: "buffer \<Rightarrow> string" where
  "toHex bs = concat (map (\<lambda>b. [hexDigit (unat b div 16), hexDigit (unat b mod 16)]) bs)"

fun fromHex :: "string \<Rightarrow> buffer" where
  "fromHex (a # b # rest) =
     (case (hexVal a, hexVal b) of
        (Some x, Some y) \<Rightarrow> word_of_nat (16 * x + y) # fromHex rest
      | _ \<Rightarrow> [])"
| "fromHex _ = []"

text \<open>
  \<open>s.split(':')\<close>: the pieces between the colons, in order; a string with no colon
  (the empty string too) gives one piece.
\<close>

fun split_colon :: "string \<Rightarrow> string list" where
  "split_colon [] = [[]]"
| "split_colon (c # cs) =
     (if c = CHR '':'' then [] # split_colon cs
      else (c # hd (split_colon cs)) # tl (split_colon cs))"

text \<open>Truthiness of an optional string: \<open>undefined\<close> and \<open>''\<close> are falsy.\<close>

definition truthy :: "'a list option \<Rightarrow> bool" where
  "truthy x = (case x of None \<Rightarrow> False | Some t \<Rightarrow> t \<noteq> [])"

subsection \<open>Text and its UTF-8 bytes\<close>

text \<open>
  A JavaScript string is a list of 16-bit code units; the secrets are kept as such.  (The
  ids, hosts, timestamps and stored hexadecimal strings are compared and cut only, and are
  kept as plain strings.)  \<open>js\<close> writes an ASCII literal as a JavaScript string.
\<close>

type_synonym utf16 = "16 word list"

definition js :: "string \<Rightarrow> utf16" where
  "js s = map (\<lambda>c. word_of_nat (of_char c)) s"

definition highSurrogate :: "nat \<Rightarrow> bool" where
  "highSurrogate u = (55296 \<le> u \<and> u < 56320)"

definition lowSurrogate :: "nat \<Rightarrow> bool" where
  "lowSurrogate u = (56320 \<le> u \<and> u < 57344)"

text \<open>
  The \<open>'utf8'\<close> encoding of a string, as \<open>cipher.update(text, 'utf8', ...)\<close> applies it: a
  high surrogate followed by a low one is the code point of the pair, in four bytes; a
  surrogate that stands alone is written as U+FFFD (\<open>EF BF BD\<close>); any other unit is
  written in one, two or three bytes.
\<close>

definition encodePoint :: "nat \<Rightarrow> nat list" where
  "encodePoint cp =
     (if cp < 128 then [cp]
      else if cp < 2048 then [192 + cp div 64, 128 + cp mod 64]
      else if cp < 65536 then [224 + cp div 4096, 128 + cp div 64 mod 64, 128 + cp mod 64]
      else [240 + cp div 262144, 128 + cp div 4096 mod 64, 128 + cp div 64 mod 64,
            128 + cp mod 64])"

fun encodeUnits :: "nat list \<Rightarrow> nat list" where
  "encodeUnits [] = []"
| "encodeUnits (u # us) =
     (if highSurrogate u \<and> us \<noteq> [] \<and> lowSurrogate (hd us)
      then encodePoint (65536 + (u - 55296) * 1024 + (hd us - 56320)) @ encodeUnits (tl us)
      else if highSurrogate u \<or> lowSurrogate u
      then [239, 191, 189] @ encodeUnits us
      else encodePoint u @ encodeUnits us)"

definition utf8Encode :: "utf16 \<Rightarrow> buffer" where
  "utf8Encode text = map word_of_nat (encodeUnits (map unat text))"

text \<open>
  The \<open>'utf8'\<close> decoding of bytes, as \<open>decipher.update(..., 'utf8')\<close> and
  \<open>final('utf8')\<close> apply it.  A lead byte says how many continuation bytes follow and in
  which range the first of them must lie (so that overlong forms, surrogates and points
  beyond U+10FFFF are refused); \<open>continuation\<close> reads them.  A byte that cannot start or
  continue a sequence ends it: U+FFFD is written for what was read, and decoding goes on
  at that byte.
\<close>

fun continuation :: "nat \<Rightarrow> nat \<Rightarrow> nat \<Rightarrow> nat \<Rightarrow> nat list \<Rightarrow> nat option \<times> nat list" where
  "continuation 0 cp lo hi bs = (Some cp, bs)"
| "continuation (Suc n) cp lo hi [] = (None, [])"
| "continuation (Suc n) cp lo hi (b # bs) =
     (if lo \<le> b \<and> b \<le> hi then continuation n (cp * 64 + (b - 128)) 128 191 bs
      else (None, b # bs))"

definition lead :: "nat \<Rightarrow> (nat \<times> nat \<times> nat \<times> nat) option" where
  "lead b =
     (if 194 \<le> b \<and> b \<le> 223 then Some (1, b - 192, 128, 191)
      else if 224 \<le> b \<and> b \<le> 239
      then Some (2, b - 224, if b = 224 then 160 else 128, if b = 237 then 159 else 191)
      else if 240 \<le> b \<and> b \<le> 244
      then Some (3, b - 240, if b = 240 then 144 else 128, if b = 244 then 143 else 191)
      else None)"

function decodeBytes :: "nat list \<Rightarrow> nat list" where
  "decodeBytes [] = []"
| "decodeBytes (b # bs) =
     (if b < 128 then b # decodeBytes bs
      else case lead b of
        None \<Rightarrow> 65533 # decodeBytes bs
      | Some (n, cp, lo, hi) \<Rightarrow>
         (case fst (continuation n cp lo hi bs) of
            None \<Rightarrow> 65533 # decodeBytes (snd (continuation n cp lo hi bs))
          | Some point \<Rightarrow> point # decodeBytes (snd (continuation n cp lo hi bs))))"
  by pat_completeness auto
termination
proof -
  have rest: "length (snd (continuation n cp lo hi bs)) \<le> length bs" for n cp lo hi bs
    by (induction n cp lo hi bs rule: continuation.induct) auto
  show ?thesis
    by (relation "measure length") (auto simp: rest less_Suc_eq_le)
qed

text \<open>A code point as code units: itself, or the surrogate pair of a point beyond U+FFFF.\<close>

definition unitsOf :: "nat \<Rightarrow> nat list" where
  "unitsOf cp =
     (if cp < 65536 then [cp]
      else [55296 + (cp - 65536) div 1024, 56320 + (cp - 65536) mod 1024])"

definition utf8Decode :: "buffer \<Rightarrow> utf16" where
  "utf8Decode bytes = map word_of_nat (concat (map unitsOf (decodeBytes (map unat bytes))))"

text \<open>A string is well formed when every surrogate in it is half of a pair.\<close>

fun wellFormed :: "nat list \<Rightarrow> bool" where
  "wellFormed [] = True"
| "wellFormed (u # us) =
     (if highSurrogate u then us \<noteq> [] \<and> lowSurrogate (hd us) \<and> wellFormed (tl us)
      else \<not> lowSurrogate u \<and> wellFormed us)"

definition wellFormedText :: "utf16 \<Rightarrow> bool" where
  "wellFormedText text = wellFormed (map unat text)"

text \<open>
  A JavaScript \<open>Map\<close> keeps its entries in insertion order: \<open>set\<close> on a key that is
  present replaces the value in place, on a new key it appends; \<open>new Map(entries)\<close> sets
  the entries one after the other.
\<close>

type_synonym ('k, 'v) jsmap = "('k \<times> 'v) list"

definition Map_get :: "('k, 'v) jsmap \<Rightarrow> 'k \<Rightarrow> 'v option" where
  "Map_get m k = map_of m k"

definition Map_has :: "('k, 'v) jsmap \<Rightarrow> 'k \<Rightarrow> bool" where
  "Map_has m k = (map_of m k \<noteq> None)"

definition Map_set :: "'k \<Rightarrow> 'v \<Rightarrow> ('k, 'v) jsmap \<Rightarrow> ('k, 'v) jsmap" where
  "Map_set k v m = AList.update k v m"

definition Map_delete :: "'k \<Rightarrow> ('k, 'v) jsmap \<Rightarrow> ('k, 'v) jsmap" where
  "Map_delete k m = AList.delete k m"


definition Map_new :: "('k \<times> 'v) list \<Rightarrow> ('k, 'v) jsmap" where
  "Map_new es = foldl (\<lambda>m (k, v). Map_set k v m) [] es"

section \<open>The credential vault\<close>

datatype authType = password_auth | key_auth

record StoredCredential =
  cred_id :: string
  cred_host :: string
  cred_port :: int
  cred_username :: string
  cred_authType :: authType
  encryptedPassword :: "string option"
  encryptedPrivateKey :: "string option"
  encryptedPassphrase :: "string option"
  iv :: string
  cred_createdAt :: string
  cred_lastUsedAt :: string

record SavedConnectionInfo =
  conn_id :: string
  conn_name :: string
  conn_host :: string
  conn_port :: int
  conn_username :: string
  conn_authType :: authType
  hasStoredCredentials :: bool
  conn_createdAt :: string
  conn_lastUsedAt :: string

text \<open>
  The argument of \<open>save\<close> and the result of \<open>get\<close> have the same shape in the source:
  the four clear fields and the three optional secrets.
\<close>

record credentialConfig =
  host :: string
  port :: int
  username :: string
  authType :: authType
  password :: "utf16 option"
  privateKey :: "utf16 option"
  passphrase :: "utf16 option"

text \<open>
  The AES-256-GCM primitive of the runtime's \<open>crypto\<close> library is a parameter of the
  model, on bytes.  \<open>cipheriv key iv data\<close> is what \<open>createCipheriv('aes-256-gcm', key,
  iv)\<close>, \<open>update\<close>, \<open>final\<close> and \<open>getAuthTag\<close> produce together for the bytes \<open>data\<close>:
  the ciphertext and the tag, or \<open>None\<close> when the library throws.  \<open>decipheriv key iv tag
  data\<close> is \<open>createDecipheriv\<close>, \<open>setAuthTag\<close> when a tag is given, \<open>update\<close> and
  \<open>final\<close>: the plain bytes, or \<open>None\<close> when any of them throws.  The text encodings that
  the source asks \<open>update\<close> and \<open>final\<close> for (\<open>'utf8'\<close>, \<open>'hex'\<close>) are applied by
  \<open>encrypt\<close> and \<open>decrypt\<close> below.
\<close>

record gcm =
  cipheriv :: "buffer \<Rightarrow> buffer \<Rightarrow> buffer \<Rightarrow> (buffer \<times> buffer) option"
  decipheriv :: "buffer \<Rightarrow> buffer \<Rightarrow> buffer option \<Rightarrow> buffer \<Rightarrow> buffer option"

text \<open>The content of a store file, as \<open>existsSync\<close>, \<open>readFileSync\<close> and \<open>JSON.parse\<close> see it.\<close>

datatype 'a storeFile = Missing | Unreadable | Entries "(string \<times> 'a) list"

text \<open>
  The store: the two maps and the key of the class, and the environment its methods
  touch: the two files, whether a write to them succeeds, the random source
  (\<open>rng n i\<close> is byte \<open>i\<close> of the \<open>n\<close>-th call of \<open>crypto.randomBytes\<close>), the clock
  (\<open>clock n\<close> is what the \<open>n\<close>-th \<open>new Date().toISOString()\<close> returns) and the lines
  written with \<open>console.error\<close>.
\<close>

record CredentialStore =
  credentials :: "(string, StoredCredential) jsmap"
  connections :: "(string, SavedConnectionInfo) jsmap"
  encryptionKey :: buffer
  credentialsFile :: "StoredCredential storeFile"
  connectionsFile :: "SavedConnectionInfo storeFile"
  diskWritable :: bool
  rng :: "nat \<Rightarrow> nat \<Rightarrow> byte"
  drawn :: nat
  clock :: "nat \<Rightarrow> string"
  clockReads :: nat
  errorLog :: "string list"

definition randomBytes :: "CredentialStore \<Rightarrow> nat \<Rightarrow> buffer \<times> CredentialStore" where
  "randomBytes s n = (map (rng s (drawn s)) [0..<n], s\<lparr>drawn := Suc (drawn s)\<rparr>)"

definition now :: "CredentialStore \<Rightarrow> string \<times> CredentialStore" where
  "now s = (clock s (clockReads s), s\<lparr>clockReads := Suc (clockReads s)\<rparr>)"

definition console_error :: "string \<Rightarrow> CredentialStore \<Rightarrow> CredentialStore" where
  "console_error line s = s\<lparr>errorLog := errorLog s @ [line]\<rparr>"

text \<open>
  \<open>encrypt\<close>: a fresh 16-byte vector, then the primitive on the UTF-8 bytes of the text;
  \<open>None\<close> when it throws.
\<close>

definition encrypt ::
  "gcm \<Rightarrow> CredentialStore \<Rightarrow> utf16 \<Rightarrow> (string \<times> string \<times> string) option \<times> CredentialStore" where
  "encrypt G s text =
     (let (ivb, s') = randomBytes s 16 in
      case cipheriv G (encryptionKey s') ivb (utf8Encode text) of
        None \<Rightarrow> (None, s')
      | Some (encrypted, tag) \<Rightarrow> (Some (toHex encrypted, toHex ivb, toHex tag), s'))"

text \<open>
  \<open>decrypt\<close>: the tag is set only when \<open>tagHex\<close> is truthy; the plain bytes are read as
  UTF-8.
\<close>

definition decrypt :: "gcm \<Rightarrow> CredentialStore \<Rightarrow> string \<Rightarrow> string \<Rightarrow> string option \<Rightarrow> utf16 option" where
  "decrypt G s encrypted ivHex tagHex =
     map_option utf8Decode
       (decipheriv G (encryptionKey s) (fromHex ivHex)
          (if truthy tagHex then Some (fromHex (the tagHex)) else None)
          (fromHex encrypted))"

definition persist :: "CredentialStore \<Rightarrow> CredentialStore" where
  "persist s =
     (if diskWritable s then s\<lparr>credentialsFile := Entries (credentials s)\<rparr>
      else console_error ''Failed to persist credentials:'' s)"

definition persistConnections :: "CredentialStore \<Rightarrow> CredentialStore" where
  "persistConnections s =
     (if diskWritable s then s\<lparr>connectionsFile := Entries (connections s)\<rparr>
      else console_error ''Failed to persist connections:'' s)"

text \<open>The stored form of one secret: \<open>iv:encrypted:tag\<close>.\<close>

definition blob :: "string \<times> string \<times> string \<Rightarrow> string" where
  "blob r = (case r of (encrypted, ivh, tag) \<Rightarrow> ivh @ '':'' @ encrypted @ '':'' @ tag)"

text \<open>
  \<open>save\<close>.  The second component is \<open>False\<close> when \<open>encrypt\<close> threw: the exception leaves
  \<open>save\<close> before the credential is put into the map.
\<close>

definition save :: "gcm \<Rightarrow> CredentialStore \<Rightarrow> string \<Rightarrow> credentialConfig \<Rightarrow> CredentialStore \<times> bool" where
  "save G s0 ident config =
     (let (created, s1) = now s0;
          (lastUsed, s2) = now s1;
          credential = \<lparr>cred_id = ident, cred_host = host config, cred_port = port config,
            cred_username = username config, cred_authType = authType config,
            encryptedPassword = None, encryptedPrivateKey = None, encryptedPassphrase = None,
            iv = [], cred_createdAt = created, cred_lastUsedAt = lastUsed\<rparr>;
          (r1, s3) = (if truthy (password config) then encrypt G s2 (the (password config))
                      else (Some ([], [], []), s2))
      in case r1 of None \<Rightarrow> (s3, False) | Some e1 \<Rightarrow>
      let credential = (if truthy (password config)
                        then credential\<lparr>encryptedPassword := Some (blob e1)\<rparr> else credential);
          (r2, s4) = (if truthy (privateKey config) then encrypt G s3 (the (privateKey config))
                      else (Some ([], [], []), s3))
      in case r2 of None \<Rightarrow> (s4, False) | Some e2 \<Rightarrow>
      let credential = (if truthy (privateKey config)
                        then credential\<lparr>encryptedPrivateKey := Some (blob e2)\<rparr> else credential);
          (r3, s5) = (if truthy (passphrase config) then encrypt G s4 (the (passphrase config))
                      else (Some ([], [], []), s4))
      in case r3 of None \<Rightarrow> (s5, False) | Some e3 \<Rightarrow>
      let credential = (if truthy (passphrase config)
                        then credential\<lparr>encryptedPassphrase := Some (blob e3)\<rparr> else credential)
      in (persist (s5\<lparr>credentials := Map_set ident credential (credentials s5)\<rparr>), True))"

text \<open>
  The block that \<open>get\<close> repeats for each of the three fields: nothing for a field that is
  absent or empty, else the stored string is split; three pieces are the current format,
  anything else is read as the old \<open>encrypted:tag\<close> with the credential's shared \<open>iv\<close>.
  The outer \<open>None\<close> is the exception of \<open>decrypt\<close>.
\<close>

definition decryptField ::
  "gcm \<Rightarrow> CredentialStore \<Rightarrow> StoredCredential \<Rightarrow> string option \<Rightarrow> utf16 option option" where
  "decryptField G s credential field =
     (if \<not> truthy field then Some None
      else let parts = split_colon (the field) in
        if length parts = 3
        then map_option Some (decrypt G s (parts ! 1) (parts ! 0) (Some (parts ! 2)))
        else map_option Some
          (decrypt G s (parts ! 0) (iv credential)
             (if 2 \<le> length parts then Some (parts ! 1) else None)))"

text \<open>
  \<open>get\<close>: the timestamp is written and the map persisted as soon as the credential is
  found; the fields are decrypted after that, inside the \<open>try\<close>.
\<close>

definition get :: "gcm \<Rightarrow> CredentialStore \<Rightarrow> string \<Rightarrow> CredentialStore \<times> credentialConfig option" where
  "get G s0 ident =
     (case Map_get (credentials s0) ident of
        None \<Rightarrow> (s0, None)
      | Some found \<Rightarrow>
         let (t, s1) = now s0;
             credential = found\<lparr>cred_lastUsedAt := t\<rparr>;
             s2 = persist (s1\<lparr>credentials := Map_set ident credential (credentials s1)\<rparr>);
             result = \<lparr>host = cred_host credential, port = cred_port credential,
               username = cred_username credential, authType = cred_authType credential,
               password = None, privateKey = None, passphrase = None\<rparr>;
             failed = (console_error ''Failed to decrypt credential:'' s2, None)
         in case decryptField G s2 credential (encryptedPassword credential) of
              None \<Rightarrow> failed
            | Some pw \<Rightarrow>
           (case decryptField G s2 credential (encryptedPrivateKey credential) of
              None \<Rightarrow> failed
            | Some pk \<Rightarrow>
           (case decryptField G s2 credential (encryptedPassphrase credential) of
              None \<Rightarrow> failed
            | Some pp \<Rightarrow>
                (s2, Some (result\<lparr>password := pw, privateKey := pk, passphrase := pp\<rparr>)))))"


definition delete :: "CredentialStore \<Rightarrow> string \<Rightarrow> CredentialStore \<times> bool" where
  "delete s ident =
     (let result = Map_has (credentials s) ident;
          s' = s\<lparr>credentials := Map_delete ident (credentials s)\<rparr>
      in (if result then persist s' else s', result))"

definition saveConnection :: "CredentialStore \<Rightarrow> SavedConnectionInfo \<Rightarrow> CredentialStore" where
  "saveConnection s connection =
     persistConnections (s\<lparr>connections := Map_set (conn_id connection) connection (connections s)\<rparr>)"



text \<open>
  \<open>updateConnection\<close>: \<open>Object.assign\<close> overwrites every field that the updates carry.
  The declared type of the updates leaves out \<open>id\<close> and \<open>createdAt\<close>, but the type is gone
  at run time, and the route that calls the method passes the body of the request; so
  the updates here can carry any field of a connection.
\<close>

record connectionUpdates =
  upd_id :: "string option"
  upd_name :: "string option"
  upd_host :: "string option"
  upd_port :: "int option"
  upd_username :: "string option"
  upd_authType :: "authType option"
  upd_hasStoredCredentials :: "bool option"
  upd_createdAt :: "string option"
  upd_lastUsedAt :: "string option"

definition assign :: "SavedConnectionInfo \<Rightarrow> connectionUpdates \<Rightarrow> SavedConnectionInfo" where
  "assign connection updates =
     connection
       \<lparr>conn_id := case_option (conn_id connection) id (upd_id updates),
        conn_name := case_option (conn_name connection) id (upd_name updates),
        conn_host := case_option (conn_host connection) id (upd_host updates),
        conn_port := case_option (conn_port connection) id (upd_port updates),
        conn_username := case_option (conn_username connection) id (upd_username updates),
        conn_authType := case_option (conn_authType connection) id (upd_authType updates),
        hasStoredCredentials :=
          case_option (hasStoredCredentials connection) id (upd_hasStoredCredentials updates),
        conn_createdAt := case_option (conn_createdAt connection) id (upd_createdAt updates),
        conn_lastUsedAt := case_option (conn_lastUsedAt connection) id (upd_lastUsedAt updates)\<rparr>"

definition updateConnection ::
  "CredentialStore \<Rightarrow> string \<Rightarrow> connectionUpdates \<Rightarrow> CredentialStore \<times> bool" where
  "updateConnection s ident updates =
     (case Map_get (connections s) ident of
        None \<Rightarrow> (s, False)
      | Some connection \<Rightarrow>
         (persistConnections
            (s\<lparr>connections := Map_set ident (assign connection updates) (connections s)\<rparr>),
          True))"

definition deleteConnection :: "CredentialStore \<Rightarrow> string \<Rightarrow> CredentialStore \<times> bool" where
  "deleteConnection s ident =
     (let result = Map_has (connections s) ident;
          s1 = s\<lparr>connections := Map_delete ident (connections s)\<rparr>
      in (if result then persistConnections (fst (delete s1 ident)) else s1, result))"

text \<open>
  \<open>migrateFromCredentials\<close>: the loop over the entries of the credential map, with the
  connection map and the \<open>migrated\<close> flag it updates.
\<close>

fun migrateEntries ::
  "(string \<times> StoredCredential) list \<Rightarrow> (string, SavedConnectionInfo) jsmap \<times> bool
     \<Rightarrow> (string, SavedConnectionInfo) jsmap \<times> bool" where
  "migrateEntries [] acc = acc"
| "migrateEntries ((ident, credential) # rest) (conns, migrated) =
     (if \<not> Map_has conns ident
      then migrateEntries rest
        (Map_set ident
           \<lparr>conn_id = ident,
            conn_name = cred_username credential @ ''@'' @ cred_host credential,
            conn_host = cred_host credential, conn_port = cred_port credential,
            conn_username = cred_username credential,
            conn_authType = cred_authType credential,
            hasStoredCredentials = True,
            conn_createdAt = cred_createdAt credential,
            conn_lastUsedAt = cred_lastUsedAt credential\<rparr> conns, True)
      else migrateEntries rest (conns, migrated))"

definition migrateFromCredentials :: "CredentialStore \<Rightarrow> CredentialStore" where
  "migrateFromCredentials s =
     (let (conns, migrated) = migrateEntries (credentials s) (connections s, False);
          s' = s\<lparr>connections := conns\<rparr>
      in if migrated then persistConnections s' else s')"

definition load :: "CredentialStore \<Rightarrow> CredentialStore" where
  "load s =
     (case credentialsFile s of
        Missing \<Rightarrow> s
      | Unreadable \<Rightarrow> console_error ''Failed to load credentials:'' s
      | Entries es \<Rightarrow> s\<lparr>credentials := Map_new es\<rparr>)"

definition loadConnections :: "CredentialStore \<Rightarrow> CredentialStore" where
  "loadConnections s =
     migrateFromCredentials
       (case connectionsFile s of
          Missing \<Rightarrow> s
        | Unreadable \<Rightarrow> console_error ''Failed to load connections:'' s
        | Entries es \<Rightarrow> s\<lparr>connections := Map_new es\<rparr>)"

text \<open>
  The constructor.  Its first part provides the key (from the environment variable, from
  the key file, or 32 random bytes); the key it ends with is the parameter \<open>key\<close>.
  \<open>env\<close> carries the environment; the two maps start empty.
\<close>

definition constructor :: "buffer \<Rightarrow> CredentialStore \<Rightarrow> CredentialStore" where
  "constructor key env =
     loadConnections (load (env\<lparr>credentials := [], connections := [], encryptionKey := key\<rparr>))"

subsection \<open>Properties of the primitive, and a stand-in for it\<close>

text \<open>
  \<open>roundTrips G key data\<close>: under \<open>key\<close> and any 16-byte vector the primitive encrypts
  the bytes \<open>data\<close> without throwing, its tag is not empty, and it decrypts the result to
  \<open>data\<close>.
\<close>

definition roundTrips :: "gcm \<Rightarrow> buffer \<Rightarrow> buffer \<Rightarrow> bool" where
  "roundTrips G key data =
     (\<forall>ivb. length ivb = 16 \<longrightarrow>
        (case cipheriv G key ivb data of
           None \<Rightarrow> False
         | Some (c, t) \<Rightarrow> t \<noteq> [] \<and> decipheriv G key ivb (Some t) c = Some data))"

text \<open>
  A stand-in for the primitive, for concrete runs: it wants a 32-byte key and a vector
  that is not empty, copies the bytes, and its tag is a one-byte checksum of key, vector
  and data.  Like the library it throws on a missing or wrong tag.
\<close>

definition standInTag :: "buffer \<Rightarrow> buffer \<Rightarrow> buffer \<Rightarrow> buffer" where
  "standInTag key ivb data = [sum_list key + sum_list ivb + sum_list data + 1]"

definition standIn :: gcm where
  "standIn =
     \<lparr>cipheriv = (\<lambda>key ivb data.
        if length key = 32 \<and> ivb \<noteq> [] then Some (data, standInTag key ivb data) else None),
      decipheriv = (\<lambda>key ivb tag data.
        if length key = 32 \<and> ivb \<noteq> [] \<and> tag = Some (standInTag key ivb data)
        then Some data else None)\<rparr>"

subsection \<open>What a stored credential carries\<close>

text \<open>
  \<open>draw s n\<close> is the 16 bytes that the \<open>n\<close>-th call of \<open>randomBytes(16)\<close> returns.
  \<open>storedFields\<close> lists the encrypted strings a credential has, \<open>fieldVector\<close> is the
  vector \<open>get\<close> decrypts a three-piece string with (its first piece, decoded).
\<close>

definition draw :: "CredentialStore \<Rightarrow> nat \<Rightarrow> buffer" where
  "draw s n = map (rng s n) [0..<16]"

definition storedFields :: "StoredCredential \<Rightarrow> string list" where
  "storedFields c =
     concat (map (\<lambda>f. case f of None \<Rightarrow> [] | Some b \<Rightarrow> [b])
       [encryptedPassword c, encryptedPrivateKey c, encryptedPassphrase c])"

definition fieldVector :: "string \<Rightarrow> buffer" where
  "fieldVector b = fromHex (hd (split_colon b))"

definition storedVectors :: "StoredCredential \<Rightarrow> buffer list" where
  "storedVectors c = map fieldVector (storedFields c)"

text \<open>
  \<open>sealedWith G key ivb secret stored\<close>: the stored string is the vector \<open>ivb\<close>, and the
  ciphertext and tag that the primitive gives for the bytes of the secret under \<open>key\<close> and
  that vector.  \<open>encryptedUnderDraws G s config c\<close>: each secret of \<open>config\<close> that is
  present is stored in \<open>c\<close> sealed with a draw of its own, the draws being the ones that
  follow those made before \<open>s\<close>, in the order password, private key, passphrase; a secret
  that is not present has no stored field.
\<close>

definition sealedWith :: "gcm \<Rightarrow> buffer \<Rightarrow> buffer \<Rightarrow> utf16 option \<Rightarrow> string option \<Rightarrow> bool" where
  "sealedWith G key ivb secret stored =
     (case cipheriv G key ivb (utf8Encode (the secret)) of
        None \<Rightarrow> False
      | Some (c, t) \<Rightarrow> stored = Some (blob (toHex c, toHex ivb, toHex t)))"

definition encryptedUnderDraws ::
  "gcm \<Rightarrow> CredentialStore \<Rightarrow> credentialConfig \<Rightarrow> StoredCredential \<Rightarrow> bool" where
  "encryptedUnderDraws G s config c =
     (let n1 = drawn s;
          n2 = n1 + (if truthy (password config) then 1 else 0);
          n3 = n2 + (if truthy (privateKey config) then 1 else 0)
      in (if truthy (password config)
          then sealedWith G (encryptionKey s) (draw s n1) (password config) (encryptedPassword c)
          else encryptedPassword c = None) \<and>
         (if truthy (privateKey config)
          then sealedWith G (encryptionKey s) (draw s n2) (privateKey config)
                 (encryptedPrivateKey c)
          else encryptedPrivateKey c = None) \<and>
         (if truthy (passphrase config)
          then sealedWith G (encryptionKey s) (draw s n3) (passphrase config)
                 (encryptedPassphrase c)
          else encryptedPassphrase c = None))"

text \<open>
  A secret as \<open>save\<close> sees it: an empty string counts as no secret.  \<open>omitEmpty\<close> is
  the configuration with its empty secrets left out, \<open>presentCount\<close> the number of secrets
  that are there.
\<close>

definition present :: "'a list option \<Rightarrow> 'a list option" where
  "present f = (if truthy f then f else None)"

text \<open>
  What comes back for a secret that went through \<open>encrypt\<close> and \<open>decrypt\<close>: its UTF-8
  bytes, read as UTF-8 again.
\<close>

definition reread :: "utf16 option \<Rightarrow> utf16 option" where
  "reread f = (if truthy f then Some (utf8Decode (utf8Encode (the f))) else None)"

definition omitEmpty :: "credentialConfig \<Rightarrow> credentialConfig" where
  "omitEmpty config =
     config\<lparr>password := present (password config), privateKey := present (privateKey config),
       passphrase := present (passphrase config)\<rparr>"

definition presentCount :: "credentialConfig \<Rightarrow> nat" where
  "presentCount config =
     length (filter truthy [password config, privateKey config, passphrase config])"

text \<open>
  A connection map whose records sit under their own id, as \<open>saveConnection\<close> and
  \<open>migrateFromCredentials\<close> put them; \<open>keyedEntries\<close> says the same of a file.
\<close>

definition keyedById :: "(string, SavedConnectionInfo) jsmap \<Rightarrow> bool" where
  "keyedById m = (\<forall>(k, c) \<in> set m. conn_id c = k)"

definition keyedEntries :: "SavedConnectionInfo storeFile \<Rightarrow> bool" where
  "keyedEntries f = (case f of Entries es \<Rightarrow> keyedById es | _ \<Rightarrow> True)"

subsection \<open>Concrete stores\<close>

definition store0 :: CredentialStore where
  "store0 =
     \<lparr>credentials = [], connections = [], encryptionKey = replicate 32 1,
      credentialsFile = Missing, connectionsFile = Missing, diskWritable = True,
      rng = (\<lambda>n i. word_of_nat (n + i)), drawn = 0,
      clock = (\<lambda>n. ''day '' @ replicate n CHR ''+''), clockReads = 0, errorLog = []\<rparr>"

definition config0 :: credentialConfig where
  "config0 =
     \<lparr>host = ''h'', port = 22, username = ''u'', authType = password_auth,
      password = Some (js ''secret''), privateKey = None, passphrase = None\<rparr>"

text \<open>The same with a password that is one high surrogate, standing alone.\<close>

definition configLone :: credentialConfig where
  "configLone = config0\<lparr>password := Some [0xD800]\<rparr>"

text \<open>
  A credential whose password string has a wrong tag: under the key of \<open>store0\<close> the
  stand-in's tag for vector \<open>00\<close> and data \<open>61\<close> is \<open>82\<close>.
\<close>

definition tampered :: StoredCredential where
  "tampered =
     \<lparr>cred_id = ''c1'', cred_host = ''h'', cred_port = 22, cred_username = ''u'',
      cred_authType = password_auth, encryptedPassword = Some ''00:61:83'',
      encryptedPrivateKey = None, encryptedPassphrase = None, iv = [],
      cred_createdAt = ''day'', cred_lastUsedAt = ''day''\<rparr>"









definition storeTampered :: CredentialStore where
  "storeTampered =
     store0\<lparr>credentials := [(''c1'', tampered)],
       credentialsFile := Entries [(''c1'', tampered)]\<rparr>"

text \<open>The store after the secret of \<open>config0\<close> was saved once, and after it was saved again.\<close>

definition savedOnce :: CredentialStore where
  "savedOnce = fst (save standIn store0 ''c1'' config0)"

definition savedTwice :: CredentialStore where
  "savedTwice = fst (save standIn savedOnce ''c2'' config0)"

text \<open>A configuration for key authentication whose password and passphrase are empty strings.\<close>

definition configEmpty :: credentialConfig where
  "configEmpty =
     \<lparr>host = ''h'', port = 22, username = ''u'', authType = key_auth,
      password = Some [], privateKey = Some (js ''k''), passphrase = Some []\<rparr>"

section \<open>The realtime relay\<close>

subsection \<open>Frames\<close>

text \<open>
  A frame from a client after \<open>JSON.parse\<close>: the fields of \<open>ClientMessage\<close>, each absent
  or present.  A frame to a client: the fields of \<open>ServerMessage\<close>.
\<close>

record ClientMessage =
  cm_type :: "string option"
  cm_sessionId :: "string option"
  cm_data :: "string option"
  cm_cols :: "int option"
  cm_rows :: "int option"

record ServerMessage =
  sm_type :: string
  sm_sessionId :: "string option"
  sm_data :: "string option"
  sm_error :: "string option"

text \<open>
  What arrives on the socket: text that \<open>JSON.parse\<close> rejects, the text \<open>null\<close> (reading
  \<open>message.type\<close> of it throws), or a value with the fields of a message.  A number, a
  string or an array parses to a value none of whose fields is present.
\<close>

datatype frame = Unparseable | JsonNull | Json ClientMessage

text \<open>Truthiness of an optional number: \<open>undefined\<close> and \<open>0\<close> are falsy.\<close>

definition truthyN :: "int option \<Rightarrow> bool" where
  "truthyN x = (case x of None \<Rightarrow> False | Some n \<Rightarrow> n \<noteq> 0)"

subsection \<open>The session registry\<close>

text \<open>
  Modelled from the spec: the session registry and shell channel manager (\<open>sshManager\<close>,
  \<open>ssh-manager.js\<close>), section 4.1.  A session has at most one channel; the channel has its
  dimensions (\<open>None\<close> for the connection's default), the input written to it and the
  listeners attached to its \<open>data\<close> and \<open>close\<close> events.  Whether the underlying
  connection accepts a channel request and a write is part of the session.
\<close>

record Shell =
  shell_cols :: "int option"
  shell_rows :: "int option"
  shell_input :: "string list"
  dataListeners :: nat
  closeListeners :: nat

record Session =
  shell :: "Shell option"
  acceptsChannel :: bool
  acceptsWrite :: bool

type_synonym registry = "string \<rightharpoonup> Session"

text \<open>Modelled from the spec: \<open>get(id)\<close>, a pure lookup.\<close>

definition getSession :: "registry \<Rightarrow> string \<Rightarrow> Session option" where
  "getSession ss sid = ss sid"

text \<open>
  Modelled from the spec: \<open>createShell(id, cols?, rows?)\<close>.  A session that has a channel
  keeps it; otherwise a channel is requested, and \<open>None\<close> is the \<open>CHANNEL_ERROR\<close> when
  the connection rejects the request (the session stays, without a shell).
\<close>

definition createShell :: "registry \<Rightarrow> string \<Rightarrow> int option \<Rightarrow> int option \<Rightarrow> registry option" where
  "createShell ss sid cols rows =
     (case ss sid of
        None \<Rightarrow> None
      | Some se \<Rightarrow>
         (case shell se of
            Some sh \<Rightarrow> Some ss
          | None \<Rightarrow>
             if acceptsChannel se
             then Some (ss(sid \<mapsto> se\<lparr>shell := Some
                    \<lparr>shell_cols = cols, shell_rows = rows, shell_input = [],
                     dataListeners = 0, closeListeners = 0\<rparr>\<rparr>))
             else None))"

text \<open>
  Modelled from the spec: \<open>sendInput(id, bytes)\<close> writes to the channel when there is one
  and the write is accepted, and returns false otherwise.
\<close>

definition sendInput :: "registry \<Rightarrow> string \<Rightarrow> string \<Rightarrow> registry \<times> bool" where
  "sendInput ss sid bytes =
     (case ss sid of
        None \<Rightarrow> (ss, False)
      | Some se \<Rightarrow>
         (case shell se of
            None \<Rightarrow> (ss, False)
          | Some sh \<Rightarrow>
             if acceptsWrite se
             then (ss(sid \<mapsto> se\<lparr>shell := Some (sh\<lparr>shell_input := shell_input sh @ [bytes]\<rparr>)\<rparr>), True)
             else (ss, False)))"

text \<open>Modelled from the spec: \<open>resize(id, cols, rows)\<close>, a no-op without a channel.\<close>

definition resizeTerminal :: "registry \<Rightarrow> string \<Rightarrow> int \<Rightarrow> int \<Rightarrow> registry" where
  "resizeTerminal ss sid cols rows =
     (case ss sid of
        None \<Rightarrow> ss
      | Some se \<Rightarrow>
         (case shell se of
            None \<Rightarrow> ss
          | Some sh \<Rightarrow>
             ss(sid \<mapsto> se\<lparr>shell := Some (sh\<lparr>shell_cols := Some cols, shell_rows := Some rows\<rparr>)\<rparr>)))"

subsection \<open>The handler\<close>

datatype readyState = CONNECTING | OPEN | CLOSING | CLOSED

text \<open>
  A client socket: the two fields the handler adds to it, its ready state, the pings sent
  on it and whether \<open>terminate\<close> was called on it.
\<close>

record WebSocketClient =
  ws_sessionId :: "string option"
  isAlive :: "bool option"
  readyState :: readyState
  pings :: nat
  terminated :: bool

text \<open>
  The handler's state: the clients of the server (\<open>wss.clients\<close>), the sockets by
  identity, the two collections of the class, the registry it calls, and \<open>wire\<close>, the
  record of every \<open>ws.send\<close> in order (the socket and the frame).
\<close>

record Relay =
  clients :: "nat set"
  sockets :: "nat \<Rightarrow> WebSocketClient"
  sessionToWs :: "string \<rightharpoonup> nat"
  shellOutputSetup :: "string set"
  sessions :: registry
  wire :: "(nat \<times> ServerMessage) list"

definition sendMessage :: "Relay \<Rightarrow> nat \<Rightarrow> ServerMessage \<Rightarrow> Relay" where
  "sendMessage s ws message =
     (if readyState (sockets s ws) = OPEN then s\<lparr>wire := wire s @ [(ws, message)]\<rparr> else s)"

definition sendError :: "Relay \<Rightarrow> nat \<Rightarrow> string \<Rightarrow> string \<Rightarrow> Relay" where
  "sendError s ws err sid =
     sendMessage s ws
       \<lparr>sm_type = ''error'', sm_sessionId = Some sid, sm_data = None, sm_error = Some err\<rparr>"

text \<open>
  The listener that \<open>setupShellOutput\<close> puts on \<open>data\<close>: the frame goes to the socket
  that is bound to the session when the data arrives, if it is open.
\<close>

definition onShellData :: "string \<Rightarrow> string \<Rightarrow> Relay \<Rightarrow> Relay" where
  "onShellData sid bytes s =
     (case sessionToWs s sid of
        None \<Rightarrow> s
      | Some ws \<Rightarrow>
         if readyState (sockets s ws) = OPEN
         then sendMessage s ws
           \<lparr>sm_type = ''output'', sm_sessionId = Some sid, sm_data = Some bytes, sm_error = None\<rparr>
         else s)"

text \<open>The listener on \<open>close\<close>: a \<open>disconnect\<close> frame, then marker and binding are removed.\<close>

definition onShellClose :: "string \<Rightarrow> Relay \<Rightarrow> Relay" where
  "onShellClose sid s =
     (let s1 = (case sessionToWs s sid of
                  None \<Rightarrow> s
                | Some ws \<Rightarrow>
                   if readyState (sockets s ws) = OPEN
                   then sendMessage s ws
                     \<lparr>sm_type = ''disconnect'', sm_sessionId = Some sid, sm_data = None,
                      sm_error = None\<rparr>
                   else s)
      in s1\<lparr>shellOutputSetup := shellOutputSetup s1 - {sid},
            sessionToWs := (sessionToWs s1)(sid := None)\<rparr>)"

definition setupShellOutput :: "Relay \<Rightarrow> string \<Rightarrow> Relay" where
  "setupShellOutput s sid =
     (if sid \<in> shellOutputSetup s then s
      else case getSession (sessions s) sid of
        None \<Rightarrow> s
      | Some session \<Rightarrow>
         (case shell session of
            None \<Rightarrow> s
          | Some sh \<Rightarrow>
             s\<lparr>shellOutputSetup := insert sid (shellOutputSetup s),
               sessions := (sessions s)(sid \<mapsto> session\<lparr>shell := Some
                 (sh\<lparr>dataListeners := Suc (dataListeners sh),
                     closeListeners := Suc (closeListeners sh)\<rparr>)\<rparr>)\<rparr>))"

text \<open>The two lines that bind a socket to a session.\<close>

definition bind :: "Relay \<Rightarrow> nat \<Rightarrow> string \<Rightarrow> Relay" where
  "bind s ws sid =
     s\<lparr>sockets := (sockets s)(ws := (sockets s ws)\<lparr>ws_sessionId := Some sid\<rparr>),
       sessionToWs := (sessionToWs s)(sid \<mapsto> ws)\<rparr>"

definition handleInput :: "Relay \<Rightarrow> nat \<Rightarrow> ClientMessage \<Rightarrow> Relay" where
  "handleInput s ws message =
     (if \<not> truthy (cm_sessionId message) \<or> \<not> truthy (cm_data message)
      then sendError s ws ''Missing sessionId or data'' []
      else
        let sid = the (cm_sessionId message); bytes = the (cm_data message) in
        case getSession (sessions s) sid of
          None \<Rightarrow> sendError s ws ''Session not found'' sid
        | Some session \<Rightarrow>
           let s1 = bind s ws sid;
               deliver = (\<lambda>s2.
                 let (ss, success) = sendInput (sessions s2) sid bytes;
                     s3 = s2\<lparr>sessions := ss\<rparr>
                 in if \<not> success then sendError s3 ws ''Failed to send input'' sid else s3)
           in if shell session = None
              then (case createShell (sessions s1) sid None None of
                      None \<Rightarrow> sendError s1 ws ''Failed to create shell'' sid
                    | Some ss \<Rightarrow> deliver (setupShellOutput (s1\<lparr>sessions := ss\<rparr>) sid))
              else deliver s1)"

definition handleResize :: "Relay \<Rightarrow> nat \<Rightarrow> ClientMessage \<Rightarrow> Relay" where
  "handleResize s ws message =
     (if \<not> truthy (cm_sessionId message) \<or> \<not> truthyN (cm_cols message)
          \<or> \<not> truthyN (cm_rows message)
      then s
      else
        let sid = the (cm_sessionId message);
            cols = the (cm_cols message); rows = the (cm_rows message) in
        case getSession (sessions s) sid of
          None \<Rightarrow> s
        | Some session \<Rightarrow>
           let s1 = bind s ws sid
           in if shell session \<noteq> None
              then s1\<lparr>sessions := resizeTerminal (sessions s1) sid cols rows\<rparr>
              else (case createShell (sessions s1) sid (Some cols) (Some rows) of
                      None \<Rightarrow> s1
                    | Some ss \<Rightarrow> setupShellOutput (s1\<lparr>sessions := ss\<rparr>) sid))"

definition handleMessage :: "Relay \<Rightarrow> nat \<Rightarrow> ClientMessage \<Rightarrow> Relay" where
  "handleMessage s ws message =
     (if cm_type message = Some ''input'' then handleInput s ws message
      else if cm_type message = Some ''resize'' then handleResize s ws message
      else if cm_type message = Some ''ping''
      then sendMessage s ws
        \<lparr>sm_type = ''pong'', sm_sessionId = cm_sessionId message, sm_data = None,
         sm_error = None\<rparr>
      else sendError s ws ''Unknown message type'' [])"

text \<open>The listeners that \<open>setupHandlers\<close> puts on a socket.\<close>

definition onMessage :: "Relay \<Rightarrow> nat \<Rightarrow> frame \<Rightarrow> Relay" where
  "onMessage s ws f =
     (case f of
        Unparseable \<Rightarrow> sendError s ws ''Invalid message format'' []
      | JsonNull \<Rightarrow> sendError s ws ''Invalid message format'' []
      | Json message \<Rightarrow> handleMessage s ws message)"

definition onPong :: "Relay \<Rightarrow> nat \<Rightarrow> Relay" where
  "onPong s ws = s\<lparr>sockets := (sockets s)(ws := (sockets s ws)\<lparr>isAlive := Some True\<rparr>)\<rparr>"

definition onClose :: "Relay \<Rightarrow> nat \<Rightarrow> Relay" where
  "onClose s ws =
     (case ws_sessionId (sockets s ws) of
        None \<Rightarrow> s
      | Some sid \<Rightarrow>
         if sid \<noteq> [] \<and> sessionToWs s sid = Some ws
         then s\<lparr>sessionToWs := (sessionToWs s)(sid := None)\<rparr>
         else s)"

definition onConnection :: "Relay \<Rightarrow> nat \<Rightarrow> Relay" where
  "onConnection s ws =
     s\<lparr>clients := insert ws (clients s),
       sockets := (sockets s)(ws :=
         \<lparr>ws_sessionId = None, isAlive = Some True, readyState = OPEN, pings = 0,
          terminated = False\<rparr>)\<rparr>"

text \<open>
  The body of the interval of \<open>startPingInterval\<close>, for one client and for all of them
  (the clients are a set, and the body touches the one socket only).
\<close>

definition pingOne :: "WebSocketClient \<Rightarrow> WebSocketClient" where
  "pingOne ws =
     (if isAlive ws = Some False then ws\<lparr>terminated := True, readyState := CLOSING\<rparr>
      else ws\<lparr>isAlive := Some False, pings := Suc (pings ws)\<rparr>)"

definition pingInterval :: "Relay \<Rightarrow> Relay" where
  "pingInterval s =
     s\<lparr>sockets := (\<lambda>ws. if ws \<in> clients s then pingOne (sockets s ws) else sockets s ws)\<rparr>"

subsection \<open>Events\<close>

text \<open>
  What happens to the handler, one event at a time: a client connects, a frame, a pong or
  the close of a connected socket, data or the close of a session's channel, and the
  tick of the ping interval.  A socket connects once (its state is \<open>CONNECTING\<close> before),
  and a socket that is not a client of the server has no events.  When a socket closes,
  the library sets its state and takes it out of the clients before the listener runs.
  The channel's events run the listeners attached to the channel; after \<open>close\<close> the
  registry releases the channel.

  A handler runs to its end within its event.  In the source \<open>handleInput\<close> and
  \<open>handleResize\<close> wait for \<open>createShell\<close>; the two lines that bind the socket come
  before that, and nothing after it writes a binding.
\<close>

datatype event =
    Connection nat
  | Message nat frame
  | Pong nat
  | Close nat
  | ShellData string string
  | ShellClose string
  | PingTick

definition step :: "Relay \<Rightarrow> event \<Rightarrow> Relay" where
  "step s e =
     (case e of
        Connection ws \<Rightarrow>
          if ws \<notin> clients s \<and> readyState (sockets s ws) = CONNECTING
          then onConnection s ws else s
      | Message ws f \<Rightarrow> if ws \<in> clients s then onMessage s ws f else s
      | Pong ws \<Rightarrow> if ws \<in> clients s then onPong s ws else s
      | Close ws \<Rightarrow>
          if ws \<in> clients s
          then onClose (s\<lparr>clients := clients s - {ws},
                 sockets := (sockets s)(ws := (sockets s ws)\<lparr>readyState := CLOSED\<rparr>)\<rparr>) ws
          else s
      | ShellData sid bytes \<Rightarrow>
          (case sessions s sid of
             None \<Rightarrow> s
           | Some session \<Rightarrow>
              (case shell session of
                 None \<Rightarrow> s
               | Some sh \<Rightarrow> (onShellData sid bytes ^^ dataListeners sh) s))
      | ShellClose sid \<Rightarrow>
          (case sessions s sid of
             None \<Rightarrow> s
           | Some session \<Rightarrow>
              (case shell session of
                 None \<Rightarrow> s
               | Some sh \<Rightarrow>
                  let s1 = (onShellClose sid ^^ closeListeners sh) s
                  in s1\<lparr>sessions := (sessions s1)(sid \<mapsto> session\<lparr>shell := None\<rparr>)\<rparr>))
      | PingTick \<Rightarrow> pingInterval s)"

definition run :: "event list \<Rightarrow> Relay \<Rightarrow> Relay" where
  "run es s = foldl step s es"

subsection \<open>Reading the wire, and concrete runs\<close>

text \<open>
  \<open>outputsFor sid s\<close>: the \<open>output\<close> frames of session \<open>sid\<close> sent so far, each with the
  socket it was sent to.  \<open>errorFrame\<close> is the frame \<open>sendError\<close> sends.
\<close>

definition outputsFor :: "string \<Rightarrow> Relay \<Rightarrow> (nat \<times> string option) list" where
  "outputsFor sid s =
     map (\<lambda>(ws, m). (ws, sm_data m))
       (filter (\<lambda>(ws, m). sm_type m = ''output'' \<and> sm_sessionId m = Some sid) (wire s))"

definition errorFrame :: "string \<Rightarrow> string \<Rightarrow> ServerMessage" where
  "errorFrame err sid =
     \<lparr>sm_type = ''error'', sm_sessionId = Some sid, sm_data = None, sm_error = Some err\<rparr>"

text \<open>
  \<open>bindingFrame f sid\<close>: \<open>f\<close> is an \<open>input\<close> frame for \<open>sid\<close> with data, or a \<open>resize\<close>
  frame for \<open>sid\<close> with columns and rows.  \<open>foreignFrame B sid e\<close>: the event is an
  \<open>input\<close> or \<open>resize\<close> frame for \<open>sid\<close> from a socket other than \<open>B\<close>.
\<close>

definition bindingFrame :: "frame \<Rightarrow> string \<Rightarrow> bool" where
  "bindingFrame f sid =
     (case f of
        Json m \<Rightarrow>
          sid \<noteq> [] \<and> cm_sessionId m = Some sid \<and>
          (cm_type m = Some ''input'' \<and> truthy (cm_data m) \<or>
           cm_type m = Some ''resize'' \<and> truthyN (cm_cols m) \<and> truthyN (cm_rows m))
      | _ \<Rightarrow> False)"

definition foreignFrame :: "nat \<Rightarrow> string \<Rightarrow> event \<Rightarrow> bool" where
  "foreignFrame B sid e =
     (case e of
        Message ws (Json m) \<Rightarrow>
          ws \<noteq> B \<and> cm_sessionId m = Some sid \<and>
          (cm_type m = Some ''input'' \<or> cm_type m = Some ''resize'')
      | _ \<Rightarrow> False)"

text \<open>
  \<open>link s w\<close>: the parts of socket \<open>w\<close> that decide whether it is connected and alive:
  its ready state, whether it was terminated, its liveness flag and the pings sent on it.
\<close>

definition link :: "Relay \<Rightarrow> nat \<Rightarrow> readyState \<times> bool \<times> bool option \<times> nat" where
  "link s w =
     (readyState (sockets s w), terminated (sockets s w), isAlive (sockets s w),
      pings (sockets s w))"

text \<open>A relay with one session and no client yet, and the frames of the scenarios.\<close>

definition relay0 :: Relay where
  "relay0 =
     \<lparr>clients = {},
      sockets = (\<lambda>ws. \<lparr>ws_sessionId = None, isAlive = None, readyState = CONNECTING,
                       pings = 0, terminated = False\<rparr>),
      sessionToWs = Map.empty, shellOutputSetup = {},
      sessions = [''s1'' \<mapsto> \<lparr>shell = None, acceptsChannel = True, acceptsWrite = True\<rparr>],
      wire = []\<rparr>"

definition inputFrame :: frame where
  "inputFrame =
     Json \<lparr>cm_type = Some ''input'', cm_sessionId = Some ''s1'', cm_data = Some ''ls'',
           cm_cols = None, cm_rows = None\<rparr>"

definition emptyInput :: frame where
  "emptyInput =
     Json \<lparr>cm_type = Some ''input'', cm_sessionId = Some ''s1'', cm_data = Some [],
           cm_cols = None, cm_rows = None\<rparr>"

definition resizeFrame :: frame where
  "resizeFrame =
     Json \<lparr>cm_type = Some ''resize'', cm_sessionId = Some ''s1'', cm_data = None,
           cm_cols = Some 80, cm_rows = Some 24\<rparr>"

definition resizeNoCols :: frame where
  "resizeNoCols =
     Json \<lparr>cm_type = Some ''resize'', cm_sessionId = Some ''s1'', cm_data = None,
           cm_cols = None, cm_rows = Some 24\<rparr>"

text \<open>Socket 1 is connected; then socket 2 too, and socket 1 has sent input and seen output.\<close>

definition relay1 :: Relay where
  "relay1 = step relay0 (Connection 1)"

definition relayA :: Relay where
  "relayA = run [Connection 2, Message 1 inputFrame, ShellData ''s1'' ''x''] relay1"

section \<open>Facts about the runtime values\<close>

subsection \<open>UTF-8\<close>

lemma continuation_1:
  "lo \<le> b \<Longrightarrow> b \<le> hi \<Longrightarrow>
   continuation 1 cp lo hi (b # bs) = (Some (cp * 64 + (b - 128)), bs)"
  by simp

lemma continuation_2:
  "lo \<le> b \<Longrightarrow> b \<le> hi \<Longrightarrow> 128 \<le> c \<Longrightarrow> c \<le> 191 \<Longrightarrow>
   continuation 2 cp lo hi (b # c # bs) = (Some ((cp * 64 + (b - 128)) * 64 + (c - 128)), bs)"
  by (simp add: numeral_2_eq_2)

lemma continuation_3:
  "lo \<le> b \<Longrightarrow> b \<le> hi \<Longrightarrow> 128 \<le> c \<Longrightarrow> c \<le> 191 \<Longrightarrow> 128 \<le> d \<Longrightarrow> d \<le> 191 \<Longrightarrow>
   continuation 3 cp lo hi (b # c # d # bs) =
     (Some (((cp * 64 + (b - 128)) * 64 + (c - 128)) * 64 + (d - 128)), bs)"
  by (simp add: numeral_3_eq_3)

lemma decode_lead:
  assumes "128 \<le> b" and "lead b = Some (n, cp, lo, hi)"
    and "continuation n cp lo hi bs = (Some point, rest)"
  shows "decodeBytes (b # bs) = point # decodeBytes rest"
  using assms by simp

lemma decode_2:
  assumes "128 \<le> cp" and "cp < 2048"
  shows "decodeBytes ([192 + cp div 64, 128 + cp mod 64] @ rest) = cp # decodeBytes rest"
proof -
  have d: "2 \<le> cp div 64" "cp div 64 < 32" using assms by simp_all
  have l: "lead (192 + cp div 64) = Some (1, cp div 64, 128, 191)"
    using d by (simp add: lead_def)
  have c: "continuation 1 (cp div 64) 128 191 ((128 + cp mod 64) # rest)
      = (Some (cp div 64 * 64 + (128 + cp mod 64 - 128)), rest)"
    by (rule continuation_1) simp_all
  have "decodeBytes ((192 + cp div 64) # (128 + cp mod 64) # rest)
      = (cp div 64 * 64 + (128 + cp mod 64 - 128)) # decodeBytes rest"
    by (rule decode_lead [OF _ l c]) simp
  then show ?thesis by simp
qed

lemma split_3:
  "cp div 4096 = cp div 64 div 64" "cp div 262144 = cp div 64 div 64 div 64"
  "cp div 4096 mod 64 = cp div 64 div 64 mod 64"
  for cp :: nat
  by (simp_all add: div_mult2_eq [symmetric])

lemma decode_3:
  assumes "2048 \<le> cp" and "cp < 65536" and "\<not> highSurrogate cp" and "\<not> lowSurrogate cp"
  shows "decodeBytes ([224 + cp div 4096, 128 + cp div 64 mod 64, 128 + cp mod 64] @ rest)
           = cp # decodeBytes rest"
proof -
  define q where "q = cp div 64"
  define a where "a = q div 64"
  define b where "b = q mod 64"
  define c where "c = cp mod 64"
  have q: "q = a * 64 + b" by (simp add: a_def b_def)
  have cp: "cp = (a * 64 + b) * 64 + c" unfolding q [symmetric] by (simp add: q_def c_def)
  have bc: "b < 64" "c < 64" by (simp_all add: b_def c_def)
  have e: "cp = 4096 * a + 64 * b + c" using cp by simp
  have r: "a < 16" using assms(2) e bc by linarith
  have lo: "a = 0 \<Longrightarrow> 32 \<le> b" using assms(1) e bc by linarith
  have hi: "a = 13 \<Longrightarrow> b < 32"
    using assms(3,4) e bc unfolding highSurrogate_def lowSurrogate_def by linarith
  have l: "lead (224 + a) =
      Some (2, a, if a = 0 then 160 else 128, if a = 13 then 159 else 191)"
    using r by (simp add: lead_def)
  have k: "continuation 2 a (if a = 0 then 160 else 128) (if a = 13 then 159 else 191)
        ((128 + b) # (128 + c) # rest)
      = (Some ((a * 64 + (128 + b - 128)) * 64 + (128 + c - 128)), rest)"
    by (rule continuation_2) (use bc lo hi in auto)
  have "decodeBytes ((224 + a) # (128 + b) # (128 + c) # rest)
      = ((a * 64 + (128 + b - 128)) * 64 + (128 + c - 128)) # decodeBytes rest"
    by (rule decode_lead [OF _ l k]) simp
  then have "decodeBytes ((224 + a) # (128 + b) # (128 + c) # rest) = cp # decodeBytes rest"
    by (simp add: cp)
  then show ?thesis
    by (simp add: split_3 a_def b_def c_def q_def)
qed

lemma decode_4:
  assumes "65536 \<le> cp" and "cp < 1114112"
  shows "decodeBytes ([240 + cp div 262144, 128 + cp div 4096 mod 64, 128 + cp div 64 mod 64,
            128 + cp mod 64] @ rest) = cp # decodeBytes rest"
proof -
  define q where "q = cp div 64"
  define p where "p = q div 64"
  define a where "a = p div 64"
  define b where "b = p mod 64"
  define c where "c = q mod 64"
  define d where "d = cp mod 64"
  have p: "p = a * 64 + b" by (simp add: a_def b_def)
  have q: "q = p * 64 + c" by (simp add: p_def c_def)
  have cp: "cp = ((a * 64 + b) * 64 + c) * 64 + d"
    unfolding p [symmetric] q [symmetric] by (simp add: q_def d_def)
  have bc: "b < 64" "c < 64" "d < 64" by (simp_all add: b_def c_def d_def)
  have e: "cp = 262144 * a + 4096 * b + 64 * c + d" using cp by simp
  have r: "a < 5" using assms(2) e bc by linarith
  have lo: "a = 0 \<Longrightarrow> 16 \<le> b" using assms(1) e bc by linarith
  have hi: "a = 4 \<Longrightarrow> b < 16" using assms(2) e bc by linarith
  have l: "lead (240 + a) =
      Some (3, a, if a = 0 then 144 else 128, if a = 4 then 143 else 191)"
    using r by (simp add: lead_def)
  have k: "continuation 3 a (if a = 0 then 144 else 128) (if a = 4 then 143 else 191)
        ((128 + b) # (128 + c) # (128 + d) # rest)
      = (Some (((a * 64 + (128 + b - 128)) * 64 + (128 + c - 128)) * 64 + (128 + d - 128)), rest)"
    by (rule continuation_3) (use bc lo hi in auto)
  have "decodeBytes ((240 + a) # (128 + b) # (128 + c) # (128 + d) # rest)
      = (((a * 64 + (128 + b - 128)) * 64 + (128 + c - 128)) * 64 + (128 + d - 128))
          # decodeBytes rest"
    by (rule decode_lead [OF _ l k]) simp
  then have "decodeBytes ((240 + a) # (128 + b) # (128 + c) # (128 + d) # rest)
      = cp # decodeBytes rest"
    by (simp add: cp)
  then show ?thesis
    by (simp add: split_3 a_def b_def c_def d_def p_def q_def)
qed

lemma decode_point:
  assumes "cp < 1114112" and "\<not> highSurrogate cp" and "\<not> lowSurrogate cp"
  shows "decodeBytes (encodePoint cp @ rest) = cp # decodeBytes rest"
proof -
  consider "cp < 128" | "128 \<le> cp" "cp < 2048" | "2048 \<le> cp" "cp < 65536"
    | "65536 \<le> cp" by linarith
  then show ?thesis
  proof cases
    case 1
    then show ?thesis by (simp add: encodePoint_def)
  next
    case 2
    with decode_2 [of cp rest] show ?thesis by (simp add: encodePoint_def)
  next
    case 3
    with decode_3 [of cp rest] assms show ?thesis by (simp add: encodePoint_def)
  next
    case 4
    with decode_4 [of cp rest] assms show ?thesis by (simp add: encodePoint_def)
  qed
qed

lemma encodePoint_bytes: "cp < 1114112 \<Longrightarrow> b \<in> set (encodePoint cp) \<Longrightarrow> b < 256"
  by (auto simp: encodePoint_def split: if_splits)

lemma pair_point:
  assumes "highSurrogate u" and "lowSurrogate v"
  shows "65536 + (u - 55296) * 1024 + (v - 56320) < 1114112"
    and "\<not> highSurrogate (65536 + (u - 55296) * 1024 + (v - 56320))"
    and "\<not> lowSurrogate (65536 + (u - 55296) * 1024 + (v - 56320))"
    and "unitsOf (65536 + (u - 55296) * 1024 + (v - 56320)) = [u, v]"
proof -
  define x where "x = u - 55296"
  define y where "y = v - 56320"
  have xy: "x < 1024" "y < 1024" "u = 55296 + x" "v = 56320 + y"
    using assms by (auto simp: x_def y_def highSurrogate_def lowSurrogate_def)
  have dm: "(x * 1024 + y) div 1024 = x" "(x * 1024 + y) mod 1024 = y"
    using xy by simp_all
  have e: "65536 + (u - 55296) * 1024 + (v - 56320) = 65536 + (x * 1024 + y)"
    by (simp add: x_def y_def)
  show "65536 + (u - 55296) * 1024 + (v - 56320) < 1114112"
    unfolding e using xy by simp
  show "\<not> highSurrogate (65536 + (u - 55296) * 1024 + (v - 56320))"
    unfolding e by (simp add: highSurrogate_def)
  show "\<not> lowSurrogate (65536 + (u - 55296) * 1024 + (v - 56320))"
    unfolding e by (simp add: lowSurrogate_def)
  show "unitsOf (65536 + (u - 55296) * 1024 + (v - 56320)) = [u, v]"
    unfolding e by (simp add: unitsOf_def dm xy del: div_mult_self3 div_mult_self4)
qed

lemma encodeUnits_bytes:
  "\<forall>u \<in> set us. u < 65536 \<Longrightarrow> b \<in> set (encodeUnits us) \<Longrightarrow> b < 256"
proof (induction us arbitrary: b rule: encodeUnits.induct)
  case 1
  then show ?case by simp
next
  case (2 u us)
  show ?case
  proof (cases "highSurrogate u \<and> us \<noteq> [] \<and> lowSurrogate (hd us)")
    case True
    then obtain v vs where us: "us = v # vs" by (cases us) auto
    with True have p: "65536 + (u - 55296) * 1024 + (v - 56320) < 1114112"
      by (simp add: pair_point)
    from "2.prems" True us "2.IH"(1) [of b] encodePoint_bytes [OF p, of b]
    show ?thesis by auto
  next
    case False
    with "2.prems" "2.IH"(2,3) [of b] encodePoint_bytes [of u b]
    show ?thesis by (auto split: if_splits)
  qed
qed

lemma decode_encodeUnits:
  "wellFormed us \<Longrightarrow> \<forall>u \<in> set us. u < 65536 \<Longrightarrow>
   concat (map unitsOf (decodeBytes (encodeUnits us))) = us"
proof (induction us rule: encodeUnits.induct)
  case 1
  then show ?case by simp
next
  case (2 u us)
  show ?case
  proof (cases "highSurrogate u")
    case True
    with "2.prems"(1) obtain v vs where us: "us = v # vs" and v: "lowSurrogate v"
      and wf: "wellFormed vs" by (cases us) auto
    from "2.IH"(1) True us v wf "2.prems"(2)
    have ih: "concat (map unitsOf (decodeBytes (encodeUnits vs))) = vs" by simp
    from True v us show ?thesis
      by (simp add: decode_point pair_point ih)
  next
    case False
    with "2.prems" have l: "\<not> lowSurrogate u" and wf: "wellFormed us" and u: "u < 65536"
      by simp_all
    from "2.IH"(3) False l wf "2.prems"(2)
    have ih: "concat (map unitsOf (decodeBytes (encodeUnits us))) = us" by simp
    have "unitsOf u = [u]" using u by (simp add: unitsOf_def)
    with False l u show ?thesis
      by (simp add: decode_point ih)
  qed
qed

lemma unat_16: "unat (u :: 16 word) < 65536"
  using unsigned_less [of u] by simp

lemma utf8_round_trip: "wellFormedText text \<Longrightarrow> utf8Decode (utf8Encode text) = text"
proof -
  assume wf: "wellFormedText text"
  have small: "\<forall>u \<in> set (map unat text). u < 65536" by (simp add: unat_16)
  have "map (\<lambda>n. unat (word_of_nat n :: byte)) (encodeUnits (map unat text))
      = encodeUnits (map unat text)"
    by (rule map_idI) (use encodeUnits_bytes [OF small] in \<open>simp add: unat_of_nat take_bit_nat_eq_self\<close>)
  then have "map unat (map word_of_nat (encodeUnits (map unat text)) :: buffer)
      = encodeUnits (map unat text)"
    by (simp add: comp_def)
  then have "utf8Decode (utf8Encode text)
      = map word_of_nat (concat (map unitsOf (decodeBytes (encodeUnits (map unat text)))))"
    by (simp add: utf8Decode_def utf8Encode_def)
  also have "\<dots> = map word_of_nat (map unat text)"
    using decode_encodeUnits [OF wf [unfolded wellFormedText_def] small] by simp
  also have "\<dots> = text" by (simp add: comp_def)
  finally show ?thesis .
qed

lemma encode_lone: "utf8Encode [0xD800] = [0xEF, 0xBF, 0xBD]"
  by (simp add: utf8Encode_def highSurrogate_def)

lemma decode_replacement: "utf8Decode [0xEF, 0xBF, 0xBD] = [0xFFFD]"
proof -
  have l: "lead 239 = Some (2, 15, 128, 191)" by (simp add: lead_def)
  have k: "continuation 2 15 128 191 [191, 189] = (Some ((15 * 64 + (191 - 128)) * 64 + (189 - 128)), [])"
    by (rule continuation_2) simp_all
  have "decodeBytes [239, 191, 189] = [65533]"
    using decode_lead [OF _ l k] by simp
  then show ?thesis by (simp add: utf8Decode_def unitsOf_def)
qed

lemma lone_surrogate: "utf8Decode (utf8Encode [0xD800]) = [0xFFFD]"
  by (simp only: encode_lone decode_replacement)

lemma wf_secret: "wellFormedText (js ''secret'')"
  by (simp add: wellFormedText_def js_def highSurrogate_def lowSurrogate_def)

subsection \<open>Hexadecimal strings and the stored format\<close>

lemma hexVal_hexDigit: "n < 16 \<Longrightarrow> hexVal (hexDigit n) = Some n"
proof -
  assume "n < 16"
  then have "n \<in> set [0..<16]" by simp
  then show ?thesis
    by (simp add: upt_rec numeral_eq_Suc Let_def; (elim disjE; simp add: hexDigit_def hexVal_def Let_def)?)
qed

lemma hexDigit_not_colon: "n < 16 \<Longrightarrow> hexDigit n \<noteq> CHR '':''"
proof -
  assume "n < 16"
  then have "n \<in> set [0..<16]" by simp
  then show ?thesis
    by (simp add: upt_rec numeral_eq_Suc Let_def hexDigit_def; (elim disjE; simp)?)
qed

lemma byte_hi: "unat (b::byte) div 16 < 16"
proof -
  have "unat b < 256" using unsigned_less [of b] by simp
  then show ?thesis by simp
qed

lemma fromHex_toHex: "fromHex (toHex bs) = bs"
  by (induction bs) (simp_all add: toHex_def hexVal_hexDigit byte_hi)

lemma toHex_no_colon: "CHR '':'' \<notin> set (toHex bs)"
proof (induction bs)
  case Nil
  show ?case by (simp add: toHex_def)
next
  case (Cons b bs)
  have "hexDigit (unat b div 16) \<noteq> CHR '':''" "hexDigit (unat b mod 16) \<noteq> CHR '':''"
    by (simp_all add: hexDigit_not_colon byte_hi)
  with Cons show ?case by (auto simp: toHex_def)
qed

lemma toHex_empty: "toHex t = [] \<longleftrightarrow> t = []"
  by (cases t) (simp_all add: toHex_def)

lemma split_colon_plain: "CHR '':'' \<notin> set a \<Longrightarrow> split_colon a = [a]"
  by (induction a) auto

lemma split_colon_piece:
  "CHR '':'' \<notin> set a \<Longrightarrow> split_colon (a @ CHR '':'' # r) = a # split_colon r"
  by (induction a) auto

lemma split_colon_blob:
  "split_colon (blob (toHex c, toHex i, toHex t)) = [toHex i, toHex c, toHex t]"
  by (simp add: blob_def split_colon_piece split_colon_plain toHex_no_colon)

lemma blob_nonempty [simp]: "blob e \<noteq> []"
  by (cases e) (simp add: blob_def)

lemma fieldVector_blob: "fieldVector (blob (toHex c, toHex i, toHex t)) = i"
  by (simp add: fieldVector_def split_colon_blob fromHex_toHex)

subsection \<open>Maps\<close>

lemma Map_get_set: "Map_get (Map_set k v m) k' = (if k' = k then Some v else Map_get m k')"
  by (simp add: Map_get_def Map_set_def update_conv')

lemma Map_has_delete [simp]: "\<not> Map_has (Map_delete k m) k"
  by (simp add: Map_has_def Map_delete_def delete_conv')


lemma set_Map_delete: "set (Map_delete k m) = {p \<in> set m. fst p \<noteq> k}"
  by (auto simp: Map_delete_def AList.delete_eq)





section \<open>The vault: what each method leaves alone\<close>

lemma persist_fields [simp]:
  "credentials (persist s) = credentials s"
  "connections (persist s) = connections s"
  "encryptionKey (persist s) = encryptionKey s"
  "clock (persist s) = clock s"
  "clockReads (persist s) = clockReads s"
  "rng (persist s) = rng s"
  "drawn (persist s) = drawn s"
  by (simp_all add: persist_def console_error_def)

lemma persist_more [simp]:
  "connectionsFile (persist s) = connectionsFile s"
  "diskWritable (persist s) = diskWritable s"
  by (simp_all add: persist_def console_error_def)

lemma console_error_fields [simp]:
  "credentials (console_error l s) = credentials s"
  "connections (console_error l s) = connections s"
  "encryptionKey (console_error l s) = encryptionKey s"
  "credentialsFile (console_error l s) = credentialsFile s"
  "connectionsFile (console_error l s) = connectionsFile s"
  by (simp_all add: console_error_def)

lemma console_error_more [simp]:
  "diskWritable (console_error l s) = diskWritable s"
  by (simp add: console_error_def)

lemma persistConnections_fields [simp]:
  "credentials (persistConnections s) = credentials s"
  "connections (persistConnections s) = connections s"
  "encryptionKey (persistConnections s) = encryptionKey s"
  "credentialsFile (persistConnections s) = credentialsFile s"
  "diskWritable (persistConnections s) = diskWritable s"
  by (simp_all add: persistConnections_def console_error_def)

lemma draw_frame [simp]:
  "draw (s\<lparr>drawn := n\<rparr>) = draw s" "draw (s\<lparr>clockReads := m\<rparr>) = draw s"
  "draw (s\<lparr>credentials := cs\<rparr>) = draw s" "draw (persist s) = draw s"
  by (auto simp: draw_def fun_eq_iff)

lemma draw_rng: "rng s' = rng s \<Longrightarrow> draw s' = draw s"
  by (simp add: draw_def fun_eq_iff)

lemma delete_fields:
  "credentials (fst (delete s ident)) = Map_delete ident (credentials s)"
  "connections (fst (delete s ident)) = connections s"
  "diskWritable (fst (delete s ident)) = diskWritable s"
  by (simp_all add: delete_def Let_def)


section \<open>The vault: saving\<close>

lemma standIn_roundTrips: "length key = 32 \<Longrightarrow> roundTrips standIn key data"
  by (simp add: roundTrips_def standIn_def standInTag_def)

lemma key_store0: "length (encryptionKey store0) = 32"
  by (simp add: store0_def)

lemma tampered_fails:
  "decryptField standIn storeTampered tampered (encryptedPassword tampered) = None"
  by (simp add: decryptField_def truthy_def decrypt_def standIn_def standInTag_def store0_def
      hexVal_def Let_def tampered_def storeTampered_def sum_list_replicate)

lemma encrypt_shape:
  "encrypt G s text = (r, s') \<Longrightarrow>
     s' = s\<lparr>drawn := Suc (drawn s)\<rparr> \<and>
     (\<forall>e. r = Some e \<longrightarrow>
        (\<exists>c t. cipheriv G (encryptionKey s) (draw s (drawn s)) (utf8Encode text) = Some (c, t) \<and>
               e = (toHex c, toHex (draw s (drawn s)), toHex t)))"
  by (auto simp: encrypt_def randomBytes_def draw_def split: option.splits)

lemma encrypt_roundTrips:
  assumes "roundTrips G (encryptionKey s) (utf8Encode text)"
  shows "\<exists>e. encrypt G s text = (Some e, s\<lparr>drawn := Suc (drawn s)\<rparr>) \<and>
           (\<forall>s' cred. encryptionKey s' = encryptionKey s \<longrightarrow>
              decryptField G s' cred (Some (blob e))
                = Some (Some (utf8Decode (utf8Encode text))))"
proof -
  define ivb where "ivb = map (rng s (drawn s)) [0..<16]"
  have "length ivb = 16" by (simp add: ivb_def)
  with assms obtain c t where
    ct: "cipheriv G (encryptionKey s) ivb (utf8Encode text) = Some (c, t)"
    and t: "t \<noteq> []"
    and d: "decipheriv G (encryptionKey s) ivb (Some t) c = Some (utf8Encode text)"
    by (auto simp: roundTrips_def split: option.splits)
  let ?e = "(toHex c, toHex ivb, toHex t)"
  have "encrypt G s text = (Some ?e, s\<lparr>drawn := Suc (drawn s)\<rparr>)"
    using ct by (simp add: encrypt_def randomBytes_def ivb_def)
  moreover have "decryptField G s' cred (Some (blob ?e))
      = Some (Some (utf8Decode (utf8Encode text)))"
    if "encryptionKey s' = encryptionKey s" for s' cred
    using that d t
    by (simp add: decryptField_def split_colon_blob decrypt_def truthy_def
        toHex_empty fromHex_toHex)
  ultimately show ?thesis by blast
qed

lemma field_step:
  assumes "truthy f \<Longrightarrow> roundTrips G (encryptionKey s) (utf8Encode (the f))"
  shows "\<exists>e. (if truthy f then encrypt G s (the f) else (Some ([], [], []), s))
             = (Some e, s\<lparr>drawn := drawn s + (if truthy f then 1 else 0)\<rparr>) \<and>
           (\<forall>s' cred. encryptionKey s' = encryptionKey s \<longrightarrow>
              decryptField G s' cred (if truthy f then Some (blob e) else None)
                = Some (reread f))"
proof (cases "truthy f")
  case True
  then obtain p where f: "f = Some p" by (cases f) (auto simp: truthy_def)
  from encrypt_roundTrips [OF assms [OF True]] True f show ?thesis
    by (auto simp: reread_def)
next
  case False
  then show ?thesis by (simp add: decryptField_def reread_def truthy_def)
qed

lemma step_shape:
  assumes "(if truthy f then encrypt G s (the f) else (Some ([], [], []), s)) = (Some e, s')"
  shows "s' = s\<lparr>drawn := drawn s + (if truthy f then 1 else 0)\<rparr> \<and>
         (truthy f \<longrightarrow> fieldVector (blob e) = draw s (drawn s) \<and>
            sealedWith G (encryptionKey s) (draw s (drawn s)) f (Some (blob e)))"
proof (cases "truthy f")
  case True
  with assms have "encrypt G s (the f) = (Some e, s')" by simp
  from encrypt_shape [OF this] True show ?thesis
    by (auto simp: fieldVector_blob sealedWith_def)
next
  case False
  with assms show ?thesis by auto
qed

lemma save_unfold:
  assumes "(if truthy (password config)
            then encrypt G (s\<lparr>clockReads := Suc (Suc (clockReads s))\<rparr>) (the (password config))
            else (Some ([], [], []), s\<lparr>clockReads := Suc (Suc (clockReads s))\<rparr>)) = (Some e1, sb)"
    and "(if truthy (privateKey config) then encrypt G sb (the (privateKey config))
            else (Some ([], [], []), sb)) = (Some e2, sc)"
    and "(if truthy (passphrase config) then encrypt G sc (the (passphrase config))
            else (Some ([], [], []), sc)) = (Some e3, sd)"
  shows "save G s ident config =
    (persist (sd\<lparr>credentials := Map_set ident
      \<lparr>cred_id = ident, cred_host = host config, cred_port = port config,
       cred_username = username config, cred_authType = authType config,
       encryptedPassword = (if truthy (password config) then Some (blob e1) else None),
       encryptedPrivateKey = (if truthy (privateKey config) then Some (blob e2) else None),
       encryptedPassphrase = (if truthy (passphrase config) then Some (blob e3) else None),
       iv = [], cred_createdAt = clock s (clockReads s),
       cred_lastUsedAt = clock s (Suc (clockReads s))\<rparr> (credentials sd)\<rparr>), True)"
  using assms unfolding save_def now_def
  by (cases "truthy (password config)"; cases "truthy (privateKey config)";
      cases "truthy (passphrase config)"; auto simp: Let_def)

lemma save_True:
  assumes "save G s ident config = (s1, True)"
  shows "\<exists>e1 e2 e3 sb sc sd.
    (if truthy (password config)
     then encrypt G (s\<lparr>clockReads := Suc (Suc (clockReads s))\<rparr>) (the (password config))
     else (Some ([], [], []), s\<lparr>clockReads := Suc (Suc (clockReads s))\<rparr>)) = (Some e1, sb) \<and>
    (if truthy (privateKey config) then encrypt G sb (the (privateKey config))
     else (Some ([], [], []), sb)) = (Some e2, sc) \<and>
    (if truthy (passphrase config) then encrypt G sc (the (passphrase config))
     else (Some ([], [], []), sc)) = (Some e3, sd)"
proof -
  let ?sa = "s\<lparr>clockReads := Suc (Suc (clockReads s))\<rparr>"
  obtain r1 sb where st1: "(if truthy (password config)
     then encrypt G ?sa (the (password config)) else (Some ([], [], []), ?sa)) = (r1, sb)"
    by (cases "(if truthy (password config)
     then encrypt G ?sa (the (password config)) else (Some ([], [], []), ?sa))") blast
  obtain r2 sc where st2: "(if truthy (privateKey config) then encrypt G sb (the (privateKey config))
     else (Some ([], [], []), sb)) = (r2, sc)"
    by (cases "(if truthy (privateKey config) then encrypt G sb (the (privateKey config))
     else (Some ([], [], []), sb))") blast
  obtain r3 sd where st3: "(if truthy (passphrase config) then encrypt G sc (the (passphrase config))
     else (Some ([], [], []), sc)) = (r3, sd)"
    by (cases "(if truthy (passphrase config) then encrypt G sc (the (passphrase config))
     else (Some ([], [], []), sc))") blast
  have "r1 \<noteq> None \<and> r2 \<noteq> None \<and> r3 \<noteq> None"
    using assms st1 st2 st3 unfolding save_def now_def
    by (cases "truthy (password config)"; cases "truthy (privateKey config)";
        cases "truthy (passphrase config)"; auto simp: Let_def split: option.splits)
  with st1 st2 st3 show ?thesis by auto
qed

lemma save_shape:
  assumes "save G s ident config = (s1, True)"
  shows "\<exists>c. Map_get (credentials s1) ident = Some c \<and>
           s1 = persist (s\<lparr>clockReads := Suc (Suc (clockReads s)),
                  drawn := drawn s + presentCount config,
                  credentials := Map_set ident c (credentials s)\<rparr>) \<and>
           (truthy (password config) \<longleftrightarrow> encryptedPassword c \<noteq> None) \<and>
           (truthy (privateKey config) \<longleftrightarrow> encryptedPrivateKey c \<noteq> None) \<and>
           (truthy (passphrase config) \<longleftrightarrow> encryptedPassphrase c \<noteq> None) \<and>
           storedVectors c = map (draw s) [drawn s ..< drawn s + presentCount config] \<and>
           encryptedUnderDraws G s config c"
proof -
  let ?sa = "s\<lparr>clockReads := Suc (Suc (clockReads s))\<rparr>"
  from save_True [OF assms] obtain e1 e2 e3 sb sc sd where
    st1: "(if truthy (password config)
     then encrypt G ?sa (the (password config)) else (Some ([], [], []), ?sa)) = (Some e1, sb)" and
    st2: "(if truthy (privateKey config) then encrypt G sb (the (privateKey config))
     else (Some ([], [], []), sb)) = (Some e2, sc)" and
    st3: "(if truthy (passphrase config) then encrypt G sc (the (passphrase config))
     else (Some ([], [], []), sc)) = (Some e3, sd)"
    by blast
  note sh1 = step_shape [OF st1] and sh2 = step_shape [OF st2] and sh3 = step_shape [OF st3]
  have s1: "s1 = fst (save G s ident config)" using assms by simp
  show ?thesis
    unfolding s1 save_unfold [OF st1 st2 st3]
    using sh1 sh2 sh3
    by (cases "truthy (password config)"; cases "truthy (privateKey config)";
        cases "truthy (passphrase config)";
        simp add: Map_get_set presentCount_def storedVectors_def storedFields_def
          encryptedUnderDraws_def Let_def
          upt_rec [of "drawn s"] upt_rec [of "Suc (drawn s)"] upt_rec [of "Suc (Suc (drawn s))"])
qed

lemma save_frame:
  assumes "save G s ident config = (s1, True)"
  shows "rng s1 = rng s \<and> drawn s1 = drawn s + presentCount config \<and>
         encryptionKey s1 = encryptionKey s"
proof -
  from save_shape [OF assms] obtain c where
    "s1 = persist (s\<lparr>clockReads := Suc (Suc (clockReads s)),
                  drawn := drawn s + presentCount config,
                  credentials := Map_set ident c (credentials s)\<rparr>)" by blast
  then show ?thesis by simp
qed

lemma truthy_present [simp]: "truthy (present f) = truthy f"
  by (simp add: present_def truthy_def)

lemma present_truthy: "truthy f \<Longrightarrow> present f = f"
  by (simp add: present_def)

lemma save_omitEmpty: "save G s ident (omitEmpty config) = save G s ident config"
  unfolding save_def now_def omitEmpty_def
  by (cases "truthy (password config)"; cases "truthy (privateKey config)";
      cases "truthy (passphrase config)";
      simp add: Let_def present_truthy split: prod.split option.split)

section \<open>The vault: reading\<close>

lemma decryptField_cong:
  "encryptionKey s' = encryptionKey s \<Longrightarrow> iv c' = iv c \<Longrightarrow>
   decryptField G s' c' f = decryptField G s c f"
  by (simp add: decryptField_def decrypt_def Let_def)

lemma get_found:
  assumes "Map_get (credentials s) ident = Some c"
  shows "get G s ident =
    (let c' = c\<lparr>cred_lastUsedAt := clock s (clockReads s)\<rparr>;
         s2 = persist (s\<lparr>clockReads := Suc (clockReads s),
                credentials := Map_set ident c' (credentials s)\<rparr>)
     in case (decryptField G s c (encryptedPassword c),
              decryptField G s c (encryptedPrivateKey c),
              decryptField G s c (encryptedPassphrase c)) of
          (Some pw, Some pk, Some pp) \<Rightarrow>
             (s2, Some \<lparr>host = cred_host c, port = cred_port c, username = cred_username c,
                authType = cred_authType c, password = pw, privateKey = pk, passphrase = pp\<rparr>)
        | _ \<Rightarrow> (console_error ''Failed to decrypt credential:'' s2, None))"
proof -
  have cong: "decryptField G
      (persist (s\<lparr>clockReads := Suc (clockReads s),
         credentials := Map_set ident (c\<lparr>cred_lastUsedAt := clock s (clockReads s)\<rparr>) (credentials s)\<rparr>))
      (c\<lparr>cred_lastUsedAt := clock s (clockReads s)\<rparr>) f = decryptField G s c f" for f
    by (rule decryptField_cong) simp_all
  show ?thesis
    using assms
    by (simp add: get_def now_def Let_def cong split: option.splits)
qed

lemma save_then_get:
  assumes pw: "truthy (password config) \<Longrightarrow> roundTrips G (encryptionKey s) (utf8Encode (the (password config)))"
    and pk: "truthy (privateKey config) \<Longrightarrow> roundTrips G (encryptionKey s) (utf8Encode (the (privateKey config)))"
    and pp: "truthy (passphrase config) \<Longrightarrow> roundTrips G (encryptionKey s) (utf8Encode (the (passphrase config)))"
  shows "\<exists>s1 s2. save G s ident config = (s1, True) \<and>
           get G s1 ident = (s2, Some
             \<lparr>host = host config, port = port config, username = username config,
              authType = authType config, password = reread (password config),
              privateKey = reread (privateKey config),
              passphrase = reread (passphrase config)\<rparr>)"
proof -
  define sa where "sa = s\<lparr>clockReads := Suc (Suc (clockReads s))\<rparr>"
  have ka: "encryptionKey sa = encryptionKey s" by (simp add: sa_def)
  from field_step [of "password config" G sa] pw ka
  obtain e1 where e1: "(if truthy (password config) then encrypt G sa (the (password config))
        else (Some ([], [], []), sa))
      = (Some e1, sa\<lparr>drawn := drawn sa + (if truthy (password config) then 1 else 0)\<rparr>)"
    and d1: "\<And>s' cred. encryptionKey s' = encryptionKey s \<Longrightarrow>
       decryptField G s' cred (if truthy (password config) then Some (blob e1) else None)
         = Some (reread (password config))"
    by auto
  define sb where "sb = sa\<lparr>drawn := drawn sa + (if truthy (password config) then 1 else 0)\<rparr>"
  have kb: "encryptionKey sb = encryptionKey s" by (simp add: sb_def sa_def)
  from field_step [of "privateKey config" G sb] pk kb
  obtain e2 where e2: "(if truthy (privateKey config) then encrypt G sb (the (privateKey config))
        else (Some ([], [], []), sb))
      = (Some e2, sb\<lparr>drawn := drawn sb + (if truthy (privateKey config) then 1 else 0)\<rparr>)"
    and d2: "\<And>s' cred. encryptionKey s' = encryptionKey s \<Longrightarrow>
       decryptField G s' cred (if truthy (privateKey config) then Some (blob e2) else None)
         = Some (reread (privateKey config))"
    by auto
  define sc where "sc = sb\<lparr>drawn := drawn sb + (if truthy (privateKey config) then 1 else 0)\<rparr>"
  have kc: "encryptionKey sc = encryptionKey s" by (simp add: sc_def sb_def sa_def)
  from field_step [of "passphrase config" G sc] pp kc
  obtain e3 where e3: "(if truthy (passphrase config) then encrypt G sc (the (passphrase config))
        else (Some ([], [], []), sc))
      = (Some e3, sc\<lparr>drawn := drawn sc + (if truthy (passphrase config) then 1 else 0)\<rparr>)"
    and d3: "\<And>s' cred. encryptionKey s' = encryptionKey s \<Longrightarrow>
       decryptField G s' cred (if truthy (passphrase config) then Some (blob e3) else None)
         = Some (reread (passphrase config))"
    by auto
  define sd where "sd = sc\<lparr>drawn := drawn sc + (if truthy (passphrase config) then 1 else 0)\<rparr>"
  have kd: "encryptionKey sd = encryptionKey s" by (simp add: sd_def sc_def sb_def sa_def)
  have sv: "save G s ident config =
    (persist (sd\<lparr>credentials := Map_set ident
      \<lparr>cred_id = ident, cred_host = host config, cred_port = port config,
       cred_username = username config, cred_authType = authType config,
       encryptedPassword = (if truthy (password config) then Some (blob e1) else None),
       encryptedPrivateKey = (if truthy (privateKey config) then Some (blob e2) else None),
       encryptedPassphrase = (if truthy (passphrase config) then Some (blob e3) else None),
       iv = [], cred_createdAt = clock s (clockReads s),
       cred_lastUsedAt = clock s (Suc (clockReads s))\<rparr> (credentials sd)\<rparr>), True)"
  proof (rule save_unfold)
    show "(if truthy (password config)
            then encrypt G (s\<lparr>clockReads := Suc (Suc (clockReads s))\<rparr>) (the (password config))
            else (Some ([], [], []), s\<lparr>clockReads := Suc (Suc (clockReads s))\<rparr>)) = (Some e1, sb)"
      unfolding sb_def using e1 unfolding sa_def .
    show "(if truthy (privateKey config) then encrypt G sb (the (privateKey config))
            else (Some ([], [], []), sb)) = (Some e2, sc)"
      unfolding sc_def by (rule e2)
    show "(if truthy (passphrase config) then encrypt G sc (the (passphrase config))
            else (Some ([], [], []), sc)) = (Some e3, sd)"
      unfolding sd_def by (rule e3)
  qed
  show ?thesis
    unfolding sv
    by (simp add: get_def Map_get_set now_def Let_def d1 d2 d3 kd)
qed

lemma reread_wellFormed: "truthy f \<Longrightarrow> wellFormedText (the f) \<Longrightarrow> reread f = f"
  by (cases f) (simp_all add: reread_def utf8_round_trip truthy_def)

section \<open>The vault: reconciliation, and connections under their ids\<close>



lemma migrateFromCredentials_eq:
  "migrateFromCredentials s =
     (let r = migrateEntries (credentials s) (connections s, False);
          s' = s\<lparr>connections := fst r\<rparr>
      in if snd r then persistConnections s' else s')"
  by (simp add: migrateFromCredentials_def case_prod_beta Let_def)

text \<open>
  The constructor on a file whose entries sit under their ids, and every method of the
  store but one, leave the connections under their ids.  The one is \<open>updateConnection\<close>
  with an \<open>id\<close> among its updates: it keeps them so only when the updates carry no id.
\<close>

lemma keyedById_set: "keyedById m \<Longrightarrow> conn_id c = k \<Longrightarrow> keyedById (Map_set k c m)"
  by (induction m) (auto simp: keyedById_def Map_set_def)

lemma keyedById_delete: "keyedById m \<Longrightarrow> keyedById (Map_delete k m)"
  by (auto simp: keyedById_def set_Map_delete)

lemma keyedById_get: "keyedById m \<Longrightarrow> Map_get m k = Some c \<Longrightarrow> conn_id c = k"
  by (auto simp: keyedById_def Map_get_def dest!: map_of_SomeD)

lemma assign_id: "upd_id u = None \<Longrightarrow> conn_id (assign c u) = conn_id c"
  by (simp add: assign_def)

lemma keyedById_new_aux:
  "keyedById m \<Longrightarrow> keyedById es \<Longrightarrow> keyedById (foldl (\<lambda>m (k, v). Map_set k v m) m es)"
proof (induction es arbitrary: m)
  case Nil
  then show ?case by simp
next
  case (Cons e es)
  obtain k v where e: "e = (k, v)" by (cases e)
  from Cons.prems have "conn_id v = k" "keyedById es" by (auto simp: keyedById_def e)
  with Cons.IH [of "Map_set k v m"] Cons.prems(1) show ?case
    by (simp add: e keyedById_set)
qed

lemma keyedById_new: "keyedById es \<Longrightarrow> keyedById (Map_new es)"
  unfolding Map_new_def by (rule keyedById_new_aux) (simp_all add: keyedById_def)

lemma keyedById_migrate:
  "keyedById conns \<Longrightarrow> keyedById (fst (migrateEntries es (conns, m)))"
proof (induction es arbitrary: conns m)
  case Nil
  then show ?case by simp
next
  case (Cons e es)
  obtain ident cr where e: "e = (ident, cr)" by (cases e)
  show ?case
    unfolding e using Cons.prems
    by (auto intro!: Cons.IH keyedById_set)
qed

lemma keyedById_kept:
  assumes "keyedById (connections s)"
  shows "keyedById (connections (saveConnection s c))"
    and "upd_id u = None \<Longrightarrow> keyedById (connections (fst (updateConnection s ident u)))"
    and "keyedById (connections (fst (deleteConnection s ident)))"
    and "keyedById (connections (migrateFromCredentials s))"
    and "keyedById (connections (fst (get G s ident)))"
    and "keyedById (connections (fst (save G s ident config)))"
proof -
  show "keyedById (connections (saveConnection s c))"
    using assms by (simp add: saveConnection_def keyedById_set)
  show "keyedById (connections (fst (updateConnection s ident u)))" if "upd_id u = None"
    using assms keyedById_get [OF assms] that
    by (auto simp: updateConnection_def keyedById_set assign_id split: option.splits)
  show "keyedById (connections (fst (deleteConnection s ident)))"
    using assms by (simp add: deleteConnection_def Let_def delete_fields keyedById_delete)
  show "keyedById (connections (migrateFromCredentials s))"
    using assms by (simp add: migrateFromCredentials_eq Let_def keyedById_migrate)
  show "keyedById (connections (fst (get G s ident)))"
  proof (cases "Map_get (credentials s) ident")
    case None
    then show ?thesis using assms by (simp add: get_def)
  next
    case (Some c)
    show ?thesis
      unfolding get_found [OF Some] using assms by (simp add: Let_def split: option.splits)
  qed
  show "keyedById (connections (fst (save G s ident config)))"
  proof (cases "snd (save G s ident config)")
    case True
    then have "save G s ident config = (fst (save G s ident config), True)"
      by (simp add: prod_eq_iff)
    from save_shape [OF this] assms show ?thesis by auto
  next
    case False
    have enc: "connections (snd (encrypt G x t)) = connections x" for x t
      by (simp add: encrypt_def randomBytes_def split: option.splits)
    show ?thesis
      using assms unfolding save_def now_def
      by (cases "truthy (password config)"; cases "truthy (privateKey config)";
          cases "truthy (passphrase config)";
          simp add: Let_def case_prod_beta enc split: option.splits)
  qed
qed

lemma keyedById_constructor:
  assumes "keyedEntries (connectionsFile env)"
  shows "keyedById (connections (constructor key env))"
proof -
  define s0 where "s0 = load (env\<lparr>credentials := [], connections := [], encryptionKey := key\<rparr>)"
  have f: "connectionsFile s0 = connectionsFile env" "connections s0 = []"
    by (simp_all add: s0_def load_def split: storeFile.splits)
  have "keyedById (connections (case connectionsFile s0 of
          Missing \<Rightarrow> s0
        | Unreadable \<Rightarrow> console_error ''Failed to load connections:'' s0
        | Entries es \<Rightarrow> s0\<lparr>connections := Map_new es\<rparr>))"
  proof (cases "connectionsFile env")
    case (Entries es)
    with assms have "keyedById es" by (simp add: keyedEntries_def)
    then show ?thesis by (simp add: f Entries keyedById_new)
  qed (simp_all add: f keyedById_def)
  then show ?thesis
    unfolding constructor_def loadConnections_def s0_def [symmetric]
    by (rule keyedById_kept(4))
qed

section \<open>The vault: the claims\<close>

text \<open>
  \<^bold>\<open>C1\<close> (vault round trip), as claimed: for every secret that is not empty,
  \<open>get\<close> after \<open>save\<close> returns it.  It does not hold: the password that is one high
  surrogate is saved, and \<open>get\<close> returns U+FFFD for it, since the UTF-8 encoding has
  no bytes for a surrogate that stands alone.
\<close>

theorem vault_round_trip_counterexample:
  "password configLone = Some [0xD800] \<and>
   snd (save standIn store0 ''c1'' configLone) \<and>
   password (the (snd (get standIn (fst (save standIn store0 ''c1'' configLone)) ''c1'')))
     = Some [0xFFFD]"
proof -
  have t: "truthy (password configLone)" "\<not> truthy (privateKey configLone)"
    "\<not> truthy (passphrase configLone)" "password configLone = Some [0xD800]"
    by (simp_all add: configLone_def config0_def truthy_def)
  have "\<exists>s1 s2. save standIn store0 ''c1'' configLone = (s1, True) \<and>
      get standIn s1 ''c1'' = (s2, Some
        \<lparr>host = host configLone, port = port configLone, username = username configLone,
         authType = authType configLone, password = reread (password configLone),
         privateKey = reread (privateKey configLone),
         passphrase = reread (passphrase configLone)\<rparr>)"
    by (rule save_then_get) (simp_all add: standIn_roundTrips key_store0)
  moreover have "reread (password configLone) = Some [0xFFFD]"
    by (simp add: reread_def truthy_def t(4) lone_surrogate)
  ultimately show ?thesis using t(4) by auto
qed

text \<open>
  \<^bold>\<open>C1\<close>, amended.  Let the primitive round-trip the UTF-8 bytes of every secret of
  the configuration that is present (not empty) under the store's key.  Then \<open>save\<close>
  returns, and \<open>get\<close> of the same id on the store it leaves returns a credential in
  which each secret is the UTF-8 bytes of the saved one read as UTF-8 again; that is the
  saved secret itself whenever it is well formed (has no surrogate outside a pair).
\<close>

theorem vault_round_trip:
  assumes "truthy (password config) \<Longrightarrow>
      roundTrips G (encryptionKey s) (utf8Encode (the (password config)))"
    and "truthy (privateKey config) \<Longrightarrow>
      roundTrips G (encryptionKey s) (utf8Encode (the (privateKey config)))"
    and "truthy (passphrase config) \<Longrightarrow>
      roundTrips G (encryptionKey s) (utf8Encode (the (passphrase config)))"
  shows "\<exists>s1 s2 r. save G s ident config = (s1, True) \<and> get G s1 ident = (s2, Some r) \<and>
           (truthy (password config) \<and> wellFormedText (the (password config)) \<longrightarrow>
              password r = password config) \<and>
           (truthy (privateKey config) \<and> wellFormedText (the (privateKey config)) \<longrightarrow>
              privateKey r = privateKey config) \<and>
           (truthy (passphrase config) \<and> wellFormedText (the (passphrase config)) \<longrightarrow>
              passphrase r = passphrase config) \<and>
           password r = reread (password config) \<and>
           privateKey r = reread (privateKey config) \<and>
           passphrase r = reread (passphrase config)"
proof -
  from save_then_get [OF assms, of ident] obtain s1 s2 where
    "save G s ident config = (s1, True)" and
    "get G s1 ident = (s2, Some
       \<lparr>host = host config, port = port config, username = username config,
        authType = authType config, password = reread (password config),
        privateKey = reread (privateKey config),
        passphrase = reread (passphrase config)\<rparr>)"
    by blast
  then show ?thesis by (simp add: reread_wellFormed)
qed

theorem vault_round_trip_witness:
  "password (the (snd (get standIn (fst (save standIn store0 ''c1'' config0)) ''c1'')))
     = Some (js ''secret'')"
proof -
  have t: "truthy (password config0)" "\<not> truthy (privateKey config0)"
    "\<not> truthy (passphrase config0)" "the (password config0) = js ''secret''"
    by (simp_all add: config0_def truthy_def js_def)
  have "\<exists>s1 s2 r. save standIn store0 ''c1'' config0 = (s1, True) \<and>
          get standIn s1 ''c1'' = (s2, Some r) \<and>
          (truthy (password config0) \<and> wellFormedText (the (password config0)) \<longrightarrow>
             password r = password config0) \<and>
          (truthy (privateKey config0) \<and> wellFormedText (the (privateKey config0)) \<longrightarrow>
             privateKey r = privateKey config0) \<and>
          (truthy (passphrase config0) \<and> wellFormedText (the (passphrase config0)) \<longrightarrow>
             passphrase r = passphrase config0) \<and>
          password r = reread (password config0) \<and>
          privateKey r = reread (privateKey config0) \<and>
          passphrase r = reread (passphrase config0)"
    by (rule vault_round_trip) (simp_all add: standIn_roundTrips key_store0)
  then show ?thesis using t wf_secret by (auto simp: config0_def)
qed

text \<open>
  \<^bold>\<open>C2\<close> (fail-closed decryption).  When the decryption of one of the encrypted fields
  of a stored credential throws, \<open>get\<close> returns \<open>null\<close>, no credential with some fields
  decrypted, and reports it: the last line of the error log is the decryption failure.
\<close>

theorem get_fail_closed:
  assumes "Map_get (credentials s) ident = Some c"
    and "decryptField G s c (encryptedPassword c) = None \<or>
         decryptField G s c (encryptedPrivateKey c) = None \<or>
         decryptField G s c (encryptedPassphrase c) = None"
  shows "snd (get G s ident) = None \<and>
         errorLog (fst (get G s ident)) \<noteq> [] \<and>
         last (errorLog (fst (get G s ident))) = ''Failed to decrypt credential:''"
  using assms(2) unfolding get_found [OF assms(1)]
  by (auto simp: Let_def console_error_def split: option.splits)

theorem get_fail_closed_witness:
  "snd (get standIn storeTampered ''c1'') = None \<and>
   last (errorLog (fst (get standIn storeTampered ''c1''))) = ''Failed to decrypt credential:''"
proof -
  have a: "Map_get (credentials storeTampered) ''c1'' = Some tampered"
    by (simp add: storeTampered_def Map_get_def)
  from get_fail_closed [OF a, of standIn] tampered_fails show ?thesis by simp
qed

text \<open>
  \<^bold>\<open>C3\<close> (read atomicity on error), as claimed: a read that fails with a decryption
  error leaves the in-memory map unchanged and persists nothing.  It does not hold: the
  read of the tampered credential fails, and both the map and the file have changed.
\<close>

theorem read_atomicity_counterexample:
  "snd (get standIn storeTampered ''c1'') = None \<and>
   credentials (fst (get standIn storeTampered ''c1'')) \<noteq> credentials storeTampered \<and>
   credentialsFile (fst (get standIn storeTampered ''c1'')) \<noteq> credentialsFile storeTampered"
proof -
  have a: "Map_get (credentials storeTampered) ''c1'' = Some tampered"
    by (simp add: storeTampered_def Map_get_def)
  show ?thesis
    unfolding get_found [OF a]
    using tampered_fails
    by (simp add: Let_def storeTampered_def store0_def tampered_def Map_set_def persist_def
        console_error_def)
qed

text \<open>
  \<^bold>\<open>C3\<close>, amended.  \<open>get\<close> of an id that is absent changes nothing.  \<open>get\<close> of an id
  that is present writes the clock's time into the credential's last-used timestamp and
  persists the map (the file holds it when the disk can be written), whether or not the
  decryption that follows succeeds; nothing else of the map, the connections or the key
  changes.
\<close>

theorem get_touches_timestamp:
  "(Map_get (credentials s) ident = None \<longrightarrow> get G s ident = (s, None)) \<and>
   (\<forall>c. Map_get (credentials s) ident = Some c \<longrightarrow>
      credentials (fst (get G s ident)) =
        Map_set ident (c\<lparr>cred_lastUsedAt := clock s (clockReads s)\<rparr>) (credentials s) \<and>
      (diskWritable s \<longrightarrow>
         credentialsFile (fst (get G s ident)) = Entries (credentials (fst (get G s ident)))) \<and>
      connections (fst (get G s ident)) = connections s \<and>
      encryptionKey (fst (get G s ident)) = encryptionKey s)"
proof (intro conjI allI impI)
  assume "Map_get (credentials s) ident = None"
  then show "get G s ident = (s, None)" by (simp add: get_def)
next
  fix c assume a: "Map_get (credentials s) ident = Some c"
  show "credentials (fst (get G s ident)) =
        Map_set ident (c\<lparr>cred_lastUsedAt := clock s (clockReads s)\<rparr>) (credentials s)"
    unfolding get_found [OF a] by (simp add: Let_def split: option.splits)
  show "connections (fst (get G s ident)) = connections s"
    unfolding get_found [OF a] by (simp add: Let_def split: option.splits)
  show "encryptionKey (fst (get G s ident)) = encryptionKey s"
    unfolding get_found [OF a] by (simp add: Let_def split: option.splits)
  assume "diskWritable s"
  then show "credentialsFile (fst (get G s ident)) = Entries (credentials (fst (get G s ident)))"
    unfolding get_found [OF a] by (simp add: Let_def persist_def split: option.splits)
qed

theorem get_touches_timestamp_witness:
  "credentials (fst (get standIn storeTampered ''c1'')) =
     [(''c1'', tampered\<lparr>cred_lastUsedAt := ''day ''\<rparr>)] \<and>
   credentialsFile (fst (get standIn storeTampered ''c1'')) =
     Entries [(''c1'', tampered\<lparr>cred_lastUsedAt := ''day ''\<rparr>)] \<and>
   get standIn storeTampered ''c2'' = (storeTampered, None)"
proof -
  have a: "Map_get (credentials storeTampered) ''c1'' = Some tampered"
    by (simp add: storeTampered_def Map_get_def)
  have b: "Map_get (credentials storeTampered) ''c2'' = None"
    by (simp add: storeTampered_def Map_get_def)
  have w: "diskWritable storeTampered" by (simp add: storeTampered_def store0_def)
  from get_touches_timestamp [of storeTampered "''c1''" standIn] a w
  have "credentials (fst (get standIn storeTampered ''c1'')) =
        Map_set ''c1'' (tampered\<lparr>cred_lastUsedAt := clock storeTampered (clockReads storeTampered)\<rparr>)
          (credentials storeTampered)"
    and "credentialsFile (fst (get standIn storeTampered ''c1'')) =
        Entries (credentials (fst (get standIn storeTampered ''c1'')))"
    by simp_all
  moreover from get_touches_timestamp [of storeTampered "''c2''" standIn] b
  have "get standIn storeTampered ''c2'' = (storeTampered, None)" by simp
  ultimately show ?thesis
    by (simp add: storeTampered_def store0_def Map_set_def)
qed

text \<open>
  \<^bold>\<open>C4\<close> (fresh, field-unique vectors).  A save that returns stores one string per
  secret that is present; each is the ciphertext and tag that the primitive gives for
  the secret under a vector drawn for that field alone, with that vector in front, and
  the vectors are the draws of the random source that follow the ones already made.  For
  a second save made later on the same random source: when the source does not repeat
  itself over the draws made, no vector occurs twice among the fields of the two saves,
  and no stored string of the first save equals one of the second.
\<close>

theorem fresh_vectors:
  assumes sv1: "save G s i1 config1 = (s1, True)"
    and later: "rng s' = rng s" "drawn s1 \<le> drawn s'"
    and sv2: "save G s' i2 config2 = (s2, True)"
    and fresh: "distinct (map (draw s) [drawn s ..< drawn s2])"
  shows "\<exists>c1 c2. Map_get (credentials s1) i1 = Some c1 \<and> Map_get (credentials s2) i2 = Some c2 \<and>
           storedVectors c1 = map (draw s) [drawn s ..< drawn s1] \<and>
           storedVectors c2 = map (draw s) [drawn s' ..< drawn s2] \<and>
           encryptedUnderDraws G s config1 c1 \<and>
           encryptedUnderDraws G s' config2 c2 \<and>
           length (storedFields c1) = presentCount config1 \<and>
           length (storedFields c2) = presentCount config2 \<and>
           distinct (storedVectors c1 @ storedVectors c2) \<and>
           set (storedFields c1) \<inter> set (storedFields c2) = {}"
proof -
  from save_frame [OF sv1] have d1: "drawn s1 = drawn s + presentCount config1" by simp
  from save_frame [OF sv2] have d2: "drawn s2 = drawn s' + presentCount config2" by simp
  from save_shape [OF sv1] d1 obtain c1 where
    c1: "Map_get (credentials s1) i1 = Some c1"
    and v1: "storedVectors c1 = map (draw s) [drawn s ..< drawn s1]"
    and u1: "encryptedUnderDraws G s config1 c1" by auto
  from save_shape [OF sv2] d2 draw_rng [OF later(1)] obtain c2 where
    c2: "Map_get (credentials s2) i2 = Some c2"
    and v2: "storedVectors c2 = map (draw s) [drawn s' ..< drawn s2]"
    and u2: "encryptedUnderDraws G s' config2 c2" by auto
  have l1: "length (storedFields c1) = presentCount config1"
    using arg_cong [OF v1, of length] d1 by (simp add: storedVectors_def)
  have l2: "length (storedFields c2) = presentCount config2"
    using arg_cong [OF v2, of length] d2 by (simp add: storedVectors_def)
  from fresh have inj: "inj_on (draw s) {drawn s ..< drawn s2}"
    by (simp add: distinct_map)
  have sub: "set ([drawn s ..< drawn s1] @ [drawn s' ..< drawn s2]) \<subseteq> {drawn s ..< drawn s2}"
    using later(2) d1 d2 by auto
  have dis: "distinct ([drawn s ..< drawn s1] @ [drawn s' ..< drawn s2])"
    using later(2) by auto
  have dv: "distinct (storedVectors c1 @ storedVectors c2)"
    unfolding v1 v2 map_append [symmetric]
    using dis inj_on_subset [OF inj sub] by (simp only: distinct_map)
  have "set (storedFields c1) \<inter> set (storedFields c2) = {}"
  proof (rule ccontr)
    assume "set (storedFields c1) \<inter> set (storedFields c2) \<noteq> {}"
    then obtain b where "b \<in> set (storedFields c1)" "b \<in> set (storedFields c2)" by blast
    then have "fieldVector b \<in> set (storedVectors c1) \<inter> set (storedVectors c2)"
      by (simp add: storedVectors_def)
    with dv show False by auto
  qed
  with c1 c2 v1 v2 u1 u2 l1 l2 dv show ?thesis by blast
qed

lemma draws_differ: "draw store0 0 \<noteq> draw store0 (Suc 0)"
  by (simp add: draw_def store0_def upt_rec [of 0])

theorem fresh_vectors_witness:
  "encryptedPassword (the (Map_get (credentials savedOnce) ''c1'')) \<noteq>
   encryptedPassword (the (Map_get (credentials savedTwice) ''c2'')) \<and>
   encryptedPassword (the (Map_get (credentials savedOnce) ''c1'')) \<noteq> None \<and>
   sealedWith standIn (encryptionKey store0) (draw store0 0) (Some (js ''secret''))
     (encryptedPassword (the (Map_get (credentials savedOnce) ''c1''))) \<and>
   sealedWith standIn (encryptionKey store0) (draw store0 1) (Some (js ''secret''))
     (encryptedPassword (the (Map_get (credentials savedTwice) ''c2'')))"
proof -
  have r: "roundTrips standIn (encryptionKey store0) (utf8Encode (js ''secret''))"
    by (simp add: standIn_roundTrips key_store0)
  have t: "truthy (password config0)" "\<not> truthy (privateKey config0)"
    "\<not> truthy (passphrase config0)" "the (password config0) = js ''secret''"
    by (simp_all add: config0_def truthy_def js_def)
  have n: "presentCount config0 = 1" by (simp add: presentCount_def t)
  from save_then_get [of config0 standIn store0 "''c1''"] r t
  have sv1: "save standIn store0 ''c1'' config0 = (savedOnce, True)"
    by (auto simp: savedOnce_def)
  note f1 = save_frame [OF sv1]
  from save_then_get [of config0 standIn savedOnce "''c2''"] r t f1
  have sv2: "save standIn savedOnce ''c2'' config0 = (savedTwice, True)"
    by (auto simp: savedTwice_def)
  note f2 = save_frame [OF sv2]
  have dr: "drawn savedOnce = 1" "drawn savedTwice = 2"
    using f1 f2 n by (simp_all add: store0_def)
  have "[drawn store0 ..< drawn savedTwice] = [0, Suc 0]"
    by (simp add: dr store0_def upt_rec [of 0] upt_rec [of "Suc 0"])
  then have fresh: "distinct (map (draw store0) [drawn store0 ..< drawn savedTwice])"
    using draws_differ by simp
  from fresh_vectors [OF sv1 _ _ sv2 fresh] f1
  obtain c1 c2 where c: "Map_get (credentials savedOnce) ''c1'' = Some c1"
    "Map_get (credentials savedTwice) ''c2'' = Some c2"
    and l: "length (storedFields c1) = presentCount config0"
      "length (storedFields c2) = presentCount config0"
    and d: "set (storedFields c1) \<inter> set (storedFields c2) = {}"
    and u: "encryptedUnderDraws standIn store0 config0 c1"
      "encryptedUnderDraws standIn savedOnce config0 c2"
    by auto
  have z: "drawn store0 = 0" "password config0 = Some (js ''secret'')"
    by (simp_all add: store0_def config0_def)
  from u(1) t(1)
  have "sealedWith standIn (encryptionKey store0) (draw store0 (drawn store0))
      (password config0) (encryptedPassword c1)"
    by (simp add: encryptedUnderDraws_def Let_def)
  then have w1: "sealedWith standIn (encryptionKey store0) (draw store0 0)
      (Some (js ''secret'')) (encryptedPassword c1)"
    unfolding z .
  from u(2) t(1)
  have "sealedWith standIn (encryptionKey savedOnce) (draw savedOnce (drawn savedOnce))
      (password config0) (encryptedPassword c2)"
    by (simp add: encryptedUnderDraws_def Let_def)
  moreover have "draw savedOnce = draw store0"
    by (rule draw_rng) (simp add: f1)
  moreover have "encryptionKey savedOnce = encryptionKey store0"
    by (simp add: f1)
  ultimately have w2: "sealedWith standIn (encryptionKey store0) (draw store0 1)
      (Some (js ''secret'')) (encryptedPassword c2)"
    by (simp add: dr z)
  from save_shape [OF sv1] c t have p1: "encryptedPassword c1 \<noteq> None" by auto
  from save_shape [OF sv2] c t have p2: "encryptedPassword c2 \<noteq> None" by auto
  from p1 p2 d have "encryptedPassword c1 \<noteq> encryptedPassword c2"
    by (auto simp: storedFields_def)
  with c p1 w1 w2 show ?thesis by simp
qed






text \<open>
  \<^bold>\<open>C10\<close> (empty-string secrets are absent).  Let the primitive round-trip the
  UTF-8 bytes of the secrets that are present: a save with empty strings among its
  secrets is the save of the configuration without them, the stored credential has no
  encrypted field for an empty secret, and \<open>get\<close> returns a credential in which that
  field is absent.
\<close>

theorem empty_secret_absent:
  assumes "truthy (password config) \<Longrightarrow> roundTrips G (encryptionKey s) (utf8Encode (the (password config)))"
    and "truthy (privateKey config) \<Longrightarrow> roundTrips G (encryptionKey s) (utf8Encode (the (privateKey config)))"
    and "truthy (passphrase config) \<Longrightarrow> roundTrips G (encryptionKey s) (utf8Encode (the (passphrase config)))"
  shows "\<exists>s1 c s2 r. save G s ident config = (s1, True) \<and>
           save G s ident (omitEmpty config) = (s1, True) \<and>
           Map_get (credentials s1) ident = Some c \<and>
           get G s1 ident = (s2, Some r) \<and>
           (password config = Some [] \<longrightarrow> encryptedPassword c = None \<and> password r = None) \<and>
           (privateKey config = Some [] \<longrightarrow> encryptedPrivateKey c = None \<and> privateKey r = None) \<and>
           (passphrase config = Some [] \<longrightarrow> encryptedPassphrase c = None \<and> passphrase r = None)"
proof -
  from save_then_get [OF assms, of ident] obtain s1 s2 where
    sv: "save G s ident config = (s1, True)" and
    gt: "get G s1 ident = (s2, Some
       \<lparr>host = host config, port = port config, username = username config,
        authType = authType config, password = reread (password config),
        privateKey = reread (privateKey config),
        passphrase = reread (passphrase config)\<rparr>)"
    by blast
  from save_shape [OF sv] obtain c where
    c: "Map_get (credentials s1) ident = Some c"
    and "truthy (password config) \<longleftrightarrow> encryptedPassword c \<noteq> None"
    and "truthy (privateKey config) \<longleftrightarrow> encryptedPrivateKey c \<noteq> None"
    and "truthy (passphrase config) \<longleftrightarrow> encryptedPassphrase c \<noteq> None"
    by blast
  with sv gt show ?thesis
    by (simp add: save_omitEmpty reread_def) (auto simp: truthy_def)
qed

theorem empty_secret_absent_witness:
  "(\<exists>s1 c s2 r. save standIn store0 ''c1'' configEmpty = (s1, True) \<and>
      save standIn store0 ''c1'' (omitEmpty configEmpty) = (s1, True) \<and>
      Map_get (credentials s1) ''c1'' = Some c \<and> get standIn s1 ''c1'' = (s2, Some r) \<and>
      encryptedPassword c = None \<and> password r = None \<and>
      encryptedPassphrase c = None \<and> passphrase r = None) \<and>
   omitEmpty configEmpty = configEmpty\<lparr>password := None, passphrase := None\<rparr>"
proof -
  have r: "roundTrips standIn (encryptionKey store0) t" for t
    by (simp add: standIn_roundTrips key_store0)
  have e: "password configEmpty = Some []" "passphrase configEmpty = Some []"
    by (simp_all add: configEmpty_def)
  have o: "omitEmpty configEmpty = configEmpty\<lparr>password := None, passphrase := None\<rparr>"
    by (simp add: omitEmpty_def configEmpty_def present_def truthy_def js_def)
  from empty_secret_absent [of configEmpty standIn store0 "''c1''"] r e o
  show ?thesis by auto
qed

section \<open>The relay: what the handlers leave alone\<close>

lemma sendMessage_fields [simp]:
  "clients (sendMessage s ws m) = clients s"
  "sockets (sendMessage s ws m) = sockets s"
  "sessionToWs (sendMessage s ws m) = sessionToWs s"
  "shellOutputSetup (sendMessage s ws m) = shellOutputSetup s"
  "sessions (sendMessage s ws m) = sessions s"
  by (simp_all add: sendMessage_def)

lemma sendError_fields [simp]:
  "clients (sendError s ws e sid) = clients s"
  "sockets (sendError s ws e sid) = sockets s"
  "sessionToWs (sendError s ws e sid) = sessionToWs s"
  "shellOutputSetup (sendError s ws e sid) = shellOutputSetup s"
  "sessions (sendError s ws e sid) = sessions s"
  by (simp_all add: sendError_def)

lemma setupShellOutput_fields [simp]:
  "clients (setupShellOutput s sid) = clients s"
  "sockets (setupShellOutput s sid) = sockets s"
  "sessionToWs (setupShellOutput s sid) = sessionToWs s"
  "wire (setupShellOutput s sid) = wire s"
  by (simp_all add: setupShellOutput_def split: option.splits)

lemma bind_fields [simp]:
  "clients (bind s ws sid) = clients s"
  "sessions (bind s ws sid) = sessions s"
  "wire (bind s ws sid) = wire s"
  "shellOutputSetup (bind s ws sid) = shellOutputSetup s"
  "sessionToWs (bind s ws sid) = (sessionToWs s)(sid \<mapsto> ws)"
  "readyState (sockets (bind s ws sid) w) = readyState (sockets s w)"
  "terminated (sockets (bind s ws sid) w) = terminated (sockets s w)"
  "isAlive (sockets (bind s ws sid) w) = isAlive (sockets s w)"
  "pings (sockets (bind s ws sid) w) = pings (sockets s w)"
  by (simp_all add: bind_def)

lemma onMessage_link: "link (onMessage s ws f) w = link s w"
  by (cases f)
     (auto simp: link_def onMessage_def handleMessage_def handleInput_def handleResize_def Let_def
        split: option.splits prod.splits)

lemma onMessage_clients: "clients (onMessage s ws f) = clients s"
  by (cases f)
     (auto simp: onMessage_def handleMessage_def handleInput_def handleResize_def Let_def
        split: option.splits prod.splits)

lemma funpow_onShellData_fields [simp]:
  "clients ((onShellData sid b ^^ n) s) = clients s"
  "sockets ((onShellData sid b ^^ n) s) = sockets s"
  "sessionToWs ((onShellData sid b ^^ n) s) = sessionToWs s"
  "sessions ((onShellData sid b ^^ n) s) = sessions s"
  by (induction n) (simp_all add: onShellData_def split: option.splits)

lemma funpow_onShellClose_fields [simp]:
  "clients ((onShellClose sid ^^ n) s) = clients s"
  "sockets ((onShellClose sid ^^ n) s) = sockets s"
  "sessions ((onShellClose sid ^^ n) s) = sessions s"
  by (induction n) (simp_all add: onShellClose_def Let_def split: option.splits)

section \<open>The relay: frames\<close>

text \<open>
  \<^bold>\<open>C7\<close> (malformed frames), as claimed: every frame with a missing required field is
  answered with an error frame.  It does not hold: an open, connected socket sends a
  \<open>resize\<close> frame without columns, and nothing is sent.
\<close>

theorem malformed_frame_counterexample:
  "1 \<in> clients relay1 \<and> readyState (sockets relay1 1) = OPEN \<and>
   resizeNoCols = Json \<lparr>cm_type = Some ''resize'', cm_sessionId = Some ''s1'', cm_data = None,
     cm_cols = None, cm_rows = Some 24\<rparr> \<and>
   wire (step relay1 (Message 1 resizeNoCols)) = []"
  by (simp add: relay1_def relay0_def step_def onConnection_def resizeNoCols_def onMessage_def
      handleMessage_def handleResize_def truthyN_def)

text \<open>
  \<^bold>\<open>C7\<close>, amended.  On an open, connected socket: text that does not parse (or parses
  to \<open>null\<close>), a frame of unknown type, and an \<open>input\<close> frame without session id or data
  are each answered with one error frame, and nothing else changes; a \<open>resize\<close> frame
  without session id, columns or rows changes nothing and is not answered.  No frame at
  all changes the clients of the server, or the ready state, the termination or the
  liveness of any socket.
\<close>

theorem malformed_frames:
  assumes "ws \<in> clients s" and "readyState (sockets s ws) = OPEN"
  shows "(f = Unparseable \<or> f = JsonNull \<longrightarrow>
           step s (Message ws f) =
             s\<lparr>wire := wire s @ [(ws, errorFrame ''Invalid message format'' [])]\<rparr>) \<and>
         (\<forall>m. f = Json m \<and> cm_type m \<noteq> Some ''input'' \<and> cm_type m \<noteq> Some ''resize'' \<and>
              cm_type m \<noteq> Some ''ping'' \<longrightarrow>
           step s (Message ws f) =
             s\<lparr>wire := wire s @ [(ws, errorFrame ''Unknown message type'' [])]\<rparr>) \<and>
         (\<forall>m. f = Json m \<and> cm_type m = Some ''input'' \<and>
              (\<not> truthy (cm_sessionId m) \<or> \<not> truthy (cm_data m)) \<longrightarrow>
           step s (Message ws f) =
             s\<lparr>wire := wire s @ [(ws, errorFrame ''Missing sessionId or data'' [])]\<rparr>) \<and>
         (\<forall>m. f = Json m \<and> cm_type m = Some ''resize'' \<and>
              (\<not> truthy (cm_sessionId m) \<or> \<not> truthyN (cm_cols m) \<or> \<not> truthyN (cm_rows m)) \<longrightarrow>
           step s (Message ws f) = s) \<and>
         clients (step s (Message ws f)) = clients s \<and>
         (\<forall>w. link (step s (Message ws f)) w = link s w)"
proof -
  have st: "step s (Message ws g) = onMessage s ws g" for g
    using assms by (simp add: step_def)
  have "clients (step s (Message ws f)) = clients s"
    and "\<forall>w. link (step s (Message ws f)) w = link s w"
    by (simp_all add: st onMessage_link onMessage_clients)
  moreover have "f = Unparseable \<or> f = JsonNull \<longrightarrow>
      step s (Message ws f) =
        s\<lparr>wire := wire s @ [(ws, errorFrame ''Invalid message format'' [])]\<rparr>"
    using assms(2)
    by (auto simp: st onMessage_def sendError_def sendMessage_def errorFrame_def)
  moreover have "\<forall>m. f = Json m \<and> cm_type m \<noteq> Some ''input'' \<and>
      cm_type m \<noteq> Some ''resize'' \<and> cm_type m \<noteq> Some ''ping'' \<longrightarrow>
      step s (Message ws f) =
        s\<lparr>wire := wire s @ [(ws, errorFrame ''Unknown message type'' [])]\<rparr>"
    using assms(2)
    by (auto simp: st onMessage_def handleMessage_def sendError_def sendMessage_def
        errorFrame_def)
  moreover have "\<forall>m. f = Json m \<and> cm_type m = Some ''input'' \<and>
      (\<not> truthy (cm_sessionId m) \<or> \<not> truthy (cm_data m)) \<longrightarrow>
      step s (Message ws f) =
        s\<lparr>wire := wire s @ [(ws, errorFrame ''Missing sessionId or data'' [])]\<rparr>"
    using assms(2)
    by (auto simp: st onMessage_def handleMessage_def handleInput_def sendError_def
        sendMessage_def errorFrame_def)
  moreover have "\<forall>m. f = Json m \<and> cm_type m = Some ''resize'' \<and>
      (\<not> truthy (cm_sessionId m) \<or> \<not> truthyN (cm_cols m) \<or> \<not> truthyN (cm_rows m)) \<longrightarrow>
      step s (Message ws f) = s"
    by (auto simp: st onMessage_def handleMessage_def handleResize_def)
  ultimately show ?thesis by blast
qed

theorem malformed_frames_witness:
  "step relay1 (Message 1 Unparseable) =
     relay1\<lparr>wire := [(1, errorFrame ''Invalid message format'' [])]\<rparr> \<and>
   step relay1 (Message 1 resizeNoCols) = relay1 \<and>
   readyState (sockets (step relay1 (Message 1 Unparseable)) 1) = OPEN"
proof -
  have c: "1 \<in> clients relay1" and o: "readyState (sockets relay1 1) = OPEN"
    and w: "wire relay1 = []"
    by (simp_all add: relay1_def relay0_def step_def onConnection_def)
  from malformed_frames [OF c o, of Unparseable] w
  have a: "step relay1 (Message 1 Unparseable) =
     relay1\<lparr>wire := [(1, errorFrame ''Invalid message format'' [])]\<rparr>" by simp
  from malformed_frames [OF c o, of resizeNoCols]
  have b: "step relay1 (Message 1 resizeNoCols) = relay1"
    by (simp add: resizeNoCols_def truthyN_def)
  from a b o show ?thesis by simp
qed

section \<open>The relay: bindings and output\<close>

lemma outputsFor_wire: "wire s' = wire s \<Longrightarrow> outputsFor sid s' = outputsFor sid s"
  by (simp add: outputsFor_def)

lemma outputsFor_sendMessage:
  "outputsFor sid (sendMessage s ws m) =
     outputsFor sid s @
       (if readyState (sockets s ws) = OPEN \<and> sm_type m = ''output'' \<and> sm_sessionId m = Some sid
        then [(ws, sm_data m)] else [])"
  by (simp add: outputsFor_def sendMessage_def)

lemma outputsFor_sendError [simp]: "outputsFor sid (sendError s ws e x) = outputsFor sid s"
  by (simp add: sendError_def outputsFor_sendMessage)

lemma outputsFor_frame [simp]:
  "outputsFor sid (setupShellOutput s x) = outputsFor sid s"
  "outputsFor sid (bind s ws x) = outputsFor sid s"
  "outputsFor sid (s\<lparr>sessions := ss\<rparr>) = outputsFor sid s"
  by (simp_all add: outputsFor_def)

lemma outputsFor_onMessage: "outputsFor sid (onMessage s ws f) = outputsFor sid s"
  by (cases f)
     (auto simp: onMessage_def handleMessage_def handleInput_def handleResize_def Let_def
        outputsFor_sendMessage split: option.splits prod.splits)

lemma binding_onMessage:
  "sessionToWs (onMessage s ws f) sid = Some ws \<or>
   sessionToWs (onMessage s ws f) sid = sessionToWs s sid"
  by (cases f)
     (auto simp: onMessage_def handleMessage_def handleInput_def handleResize_def Let_def
        split: option.splits prod.splits)

lemma binding_onMessage_other:
  assumes "\<not> foreignFrame B sid (Message ws f)" and "ws \<noteq> B"
  shows "sessionToWs (onMessage s ws f) sid = sessionToWs s sid"
  using assms
  by (cases f)
     (auto simp: foreignFrame_def onMessage_def handleMessage_def handleInput_def
        handleResize_def Let_def truthy_def split: option.splits prod.splits)

lemma binding_onMessage_bound:
  assumes "bindingFrame f sid" and "sessions s sid \<noteq> None"
  shows "sessionToWs (onMessage s ws f) sid = Some ws"
  using assms
  by (cases f)
     (auto simp: bindingFrame_def onMessage_def handleMessage_def handleInput_def
        handleResize_def Let_def getSession_def truthy_def split: option.splits prod.splits)

lemma binding_onMessage_unbound:
  assumes "\<not> bindingFrame f sid"
  shows "sessionToWs (onMessage s ws f) sid = sessionToWs s sid"
  using assms
  by (cases f)
     (auto simp: bindingFrame_def onMessage_def handleMessage_def handleInput_def
        handleResize_def Let_def truthy_def split: option.splits prod.splits)

lemma outputsFor_onShellData:
  "outputsFor sid (onShellData sid' b s) =
     outputsFor sid s @
       (case sessionToWs s sid' of
          None \<Rightarrow> []
        | Some ws \<Rightarrow> if readyState (sockets s ws) = OPEN \<and> sid' = sid then [(ws, Some b)] else [])"
  by (simp add: onShellData_def outputsFor_sendMessage split: option.splits)

lemma funpow_onShellData_out:
  "\<exists>ds. outputsFor sid ((onShellData sid' b ^^ n) s) = outputsFor sid s @ ds \<and>
        (\<forall>d \<in> set ds. sid' = sid \<and> sessionToWs s sid = Some (fst d))"
proof (induction n)
  case 0
  show ?case by simp
next
  case (Suc n)
  then obtain ds where ds: "outputsFor sid ((onShellData sid' b ^^ n) s) = outputsFor sid s @ ds"
    and all: "\<forall>d \<in> set ds. sid' = sid \<and> sessionToWs s sid = Some (fst d)" by blast
  show ?case
    using ds all
    by (auto simp: outputsFor_onShellData split: option.splits)
qed

lemma outputsFor_onShellClose [simp]:
  "outputsFor sid (onShellClose sid' s) = outputsFor sid s"
  by (simp add: onShellClose_def Let_def outputsFor_def sendMessage_def split: option.splits)

lemma funpow_onShellClose_out [simp]:
  "outputsFor sid ((onShellClose sid' ^^ n) s) = outputsFor sid s"
  by (induction n) simp_all

lemma binding_onShellClose:
  "sessionToWs (onShellClose sid' s) sid = None \<or>
   sessionToWs (onShellClose sid' s) sid = sessionToWs s sid"
  by (simp add: onShellClose_def Let_def split: option.splits)

lemma funpow_onShellClose_binding:
  "sessionToWs ((onShellClose sid' ^^ n) s) sid = None \<or>
   sessionToWs ((onShellClose sid' ^^ n) s) sid = sessionToWs s sid"
proof (induction n)
  case 0
  show ?case by simp
next
  case (Suc n)
  with binding_onShellClose [of sid' "(onShellClose sid' ^^ n) s" sid] show ?case by auto
qed

lemma step_binding:
  assumes "sessionToWs s sid = None \<or> sessionToWs s sid = Some B"
    and "\<not> foreignFrame B sid e"
  shows "sessionToWs (step s e) sid = None \<or> sessionToWs (step s e) sid = Some B"
proof (cases e)
  case (Message ws f)
  show ?thesis
  proof (cases "ws = B")
    case True
    with Message assms(1) binding_onMessage [of s B f sid] show ?thesis
      by (auto simp: step_def)
  next
    case False
    with Message assms binding_onMessage_other [of B sid ws f s] show ?thesis
      by (auto simp: step_def)
  qed
next
  case (ShellClose sid')
  have k: "sessionToWs ((onShellClose sid' ^^ n) s) sid = None \<or>
      sessionToWs ((onShellClose sid' ^^ n) s) sid = Some B" for n
    using funpow_onShellClose_binding [where sid' = sid' and s = s and sid = sid and n = n] assms(1)
    by auto
  show ?thesis
    using assms(1) by (simp add: ShellClose step_def Let_def k split: option.splits)
next
  case (Close ws)
  with assms(1) show ?thesis
    by (auto simp: step_def onClose_def split: option.splits)
qed (use assms(1) in \<open>auto simp: step_def onConnection_def onPong_def pingInterval_def
       split: option.splits\<close>)

lemma step_outputs:
  assumes "sessionToWs s sid = None \<or> sessionToWs s sid = Some B"
  shows "\<exists>ds. outputsFor sid (step s e) = outputsFor sid s @ ds \<and> (\<forall>d \<in> set ds. fst d = B)"
proof (cases e)
  case (ShellData sid' b)
  show ?thesis
  proof (cases "\<exists>se sh. sessions s sid' = Some se \<and> shell se = Some sh")
    case True
    then obtain se sh where "sessions s sid' = Some se" "shell se = Some sh" by blast
    then have st: "step s e = (onShellData sid' b ^^ dataListeners sh) s"
      by (simp add: ShellData step_def)
    from funpow_onShellData_out [where sid = sid and sid' = sid' and b = b and n = "dataListeners sh" and s = s] assms
    show ?thesis unfolding st by fastforce
  next
    case False
    then have "step s e = s"
      by (auto simp: ShellData step_def split: option.splits)
    then show ?thesis by simp
  qed
next
  case (Message ws f)
  then have "outputsFor sid (step s e) = outputsFor sid s"
    by (simp add: step_def outputsFor_onMessage)
  then show ?thesis by simp
next
  case (ShellClose sid')
  then have "outputsFor sid (step s e) = outputsFor sid s"
    by (simp add: step_def Let_def split: option.splits)
  then show ?thesis by simp
next
  case (Close ws)
  then have "outputsFor sid (step s e) = outputsFor sid s"
    by (simp add: step_def onClose_def outputsFor_def split: option.splits)
  then show ?thesis by simp
qed (simp_all add: step_def onConnection_def onPong_def pingInterval_def outputsFor_def)

lemma run_outputs:
  assumes "\<forall>e \<in> set es. \<not> foreignFrame B sid e"
    and "sessionToWs s sid = None \<or> sessionToWs s sid = Some B"
  shows "\<exists>ds. outputsFor sid (run es s) = outputsFor sid s @ ds \<and> (\<forall>d \<in> set ds. fst d = B)"
  using assms
proof (induction es arbitrary: s)
  case Nil
  show ?case by (simp add: run_def)
next
  case (Cons e es)
  from step_outputs [OF Cons.prems(2), of e] obtain d1 where
    d1: "outputsFor sid (step s e) = outputsFor sid s @ d1" "\<forall>d \<in> set d1. fst d = B" by blast
  from Cons.prems have "sessionToWs (step s e) sid = None \<or> sessionToWs (step s e) sid = Some B"
    by (intro step_binding) auto
  with Cons.IH [of "step s e"] Cons.prems(1) obtain d2 where
    d2: "outputsFor sid (run es (step s e)) = outputsFor sid (step s e) @ d2"
      "\<forall>d \<in> set d2. fst d = B" by auto
  have "outputsFor sid (run (e # es) s) = outputsFor sid s @ (d1 @ d2)"
    using d1(1) d2(1) by (simp add: run_def)
  moreover have "\<forall>d \<in> set (d1 @ d2). fst d = B" using d1(2) d2(2) by auto
  ultimately show ?case by blast
qed

lemmas relay_eval =
  relayA_def relay1_def relay0_def run_def step_def onConnection_def onMessage_def
  handleMessage_def handleInput_def handleResize_def inputFrame_def resizeFrame_def
  truthy_def truthyN_def getSession_def createShell_def sendInput_def resizeTerminal_def
  bind_def setupShellOutput_def sendError_def sendMessage_def onShellData_def Let_def
  outputsFor_def

lemma relayA_facts:
  "2 \<in> clients relayA" "sessions relayA ''s1'' \<noteq> None"
  "sessionToWs relayA ''s1'' = Some 1" "outputsFor ''s1'' relayA = [(1, Some ''x'')]"
  by (simp_all add: relay_eval)

text \<open>
  \<^bold>\<open>C8\<close> as claimed: after socket \<open>A\<close> and then socket \<open>B\<close> have sent an \<open>input\<close> or
  \<open>resize\<close> frame for a session, the output of the session goes to \<open>B\<close> only.  This does
  not hold for every such frame.  \<open>handleInput\<close> returns before it binds when the data of
  the frame is empty, and \<open>handleResize\<close> when the columns or the rows are missing or
  zero.  Socket 1 has sent input for session \<open>s1\<close> and is bound to it; socket 2 then sends
  an \<open>input\<close> frame for \<open>s1\<close> with the data \<open>''\<close>, or a \<open>resize\<close> frame for \<open>s1\<close> without
  columns: the session stays bound to socket 1, and the output that follows is sent to
  socket 1.
\<close>

theorem binding_law_counterexample:
  "2 \<in> clients relayA \<and>
   sessionToWs relayA ''s1'' = Some 1 \<and>
   outputsFor ''s1'' relayA = [(1, Some ''x'')] \<and>
   sessionToWs (step relayA (Message 2 emptyInput)) ''s1'' = Some 1 \<and>
   outputsFor ''s1'' (run [ShellData ''s1'' ''y''] (step relayA (Message 2 emptyInput)))
     = [(1, Some ''x''), (1, Some ''y'')] \<and>
   sessionToWs (step relayA (Message 2 resizeNoCols)) ''s1'' = Some 1 \<and>
   outputsFor ''s1'' (run [ShellData ''s1'' ''y''] (step relayA (Message 2 resizeNoCols)))
     = [(1, Some ''x''), (1, Some ''y'')]"
  by (simp add: relay_eval emptyInput_def resizeNoCols_def)

text \<open>
  \<^bold>\<open>C8\<close>, amended (binding law).  Let a connected socket \<open>B\<close> send an \<open>input\<close> frame with
  data that is not empty, or a \<open>resize\<close> frame with columns and rows that are not zero,
  for a session that exists.  Then the session is bound to \<open>B\<close>, and through any events
  that follow, as long as no other socket sends an \<open>input\<close> or \<open>resize\<close> frame for the
  session, every output of the session that is sent goes to \<open>B\<close>.  Any other frame, from
  any socket, leaves the binding of the session as it was.  Output of a session that no
  socket is bound to changes nothing: it is dropped.
\<close>

theorem binding_law:
  assumes "B \<in> clients s" and "bindingFrame f sid" and "sessions s sid \<noteq> None"
    and "\<forall>e \<in> set es. \<not> foreignFrame B sid e"
  shows "sessionToWs (step s (Message B f)) sid = Some B \<and>
         (\<exists>ds. outputsFor sid (run es (step s (Message B f))) = outputsFor sid s @ ds \<and>
               (\<forall>d \<in> set ds. fst d = B)) \<and>
         (\<forall>(s'::Relay) ws g. \<not> bindingFrame g sid \<longrightarrow>
               sessionToWs (step s' (Message ws g)) sid = sessionToWs s' sid) \<and>
         (\<forall>(s'::Relay) bytes. sessionToWs s' sid = None \<longrightarrow> step s' (ShellData sid bytes) = s')"
proof (intro conjI allI impI)
  have st: "step s (Message B f) = onMessage s B f"
    using assms(1) by (simp add: step_def)
  show b: "sessionToWs (step s (Message B f)) sid = Some B"
    unfolding st by (rule binding_onMessage_bound [OF assms(2,3)])
  from run_outputs [OF assms(4), of "step s (Message B f)"] b
  show "\<exists>ds. outputsFor sid (run es (step s (Message B f))) = outputsFor sid s @ ds \<and>
               (\<forall>d \<in> set ds. fst d = B)"
    by (simp add: st outputsFor_onMessage)
next
  fix s' :: Relay and ws g
  assume "\<not> bindingFrame g sid"
  then show "sessionToWs (step s' (Message ws g)) sid = sessionToWs s' sid"
    by (simp add: step_def binding_onMessage_unbound)
next
  fix s' :: Relay and bytes
  assume n: "sessionToWs s' sid = None"
  have "onShellData sid bytes s' = s'" by (simp add: onShellData_def n)
  then have "(onShellData sid bytes ^^ k) s' = s'" for k
    by (induction k) simp_all
  then show "step s' (ShellData sid bytes) = s'"
    by (simp add: step_def split: option.splits)
qed

theorem binding_law_witness:
  "sessionToWs relayA ''s1'' = Some 1 \<and>
   outputsFor ''s1'' relayA = [(1, Some ''x'')] \<and>
   sessionToWs (step relayA (Message 2 resizeFrame)) ''s1'' = Some 2 \<and>
   outputsFor ''s1'' (run [ShellData ''s1'' ''y''] (step relayA (Message 2 resizeFrame)))
     = [(1, Some ''x''), (2, Some ''y'')] \<and>
   sessionToWs (step relayA (Message 2 emptyInput)) ''s1'' = Some 1"
proof -
  have f: "bindingFrame resizeFrame ''s1''"
    by (simp add: bindingFrame_def resizeFrame_def truthyN_def)
  have g: "\<not> bindingFrame emptyInput ''s1''"
    by (simp add: bindingFrame_def emptyInput_def truthy_def)
  have q: "\<forall>e \<in> set [ShellData ''s1'' ''y'']. \<not> foreignFrame 2 ''s1'' e"
    by (simp add: foreignFrame_def)
  note law = binding_law [OF relayA_facts(1) f relayA_facts(2) q]
  from law have b: "sessionToWs (step relayA (Message 2 resizeFrame)) ''s1'' = Some 2"
    by blast
  from law g relayA_facts(3)
  have u: "sessionToWs (step relayA (Message 2 emptyInput)) ''s1'' = Some 1"
    by simp
  have o: "outputsFor ''s1'' (run [ShellData ''s1'' ''y''] (step relayA (Message 2 resizeFrame)))
     = [(1, Some ''x''), (2, Some ''y'')]"
    by (simp add: relay_eval)
  from relayA_facts b o u show ?thesis by simp
qed

section \<open>The relay: liveness\<close>

lemma pingOne_dead: "isAlive (pingOne x) = Some False"
  by (simp add: pingOne_def)

lemma pingOne_terminates: "isAlive x = Some False \<Longrightarrow> terminated (pingOne x)"
  by (simp add: pingOne_def)

lemma step_keeps_dead:
  assumes "w \<in> clients s" and "isAlive (sockets s w) = Some False"
    and "e \<noteq> Pong w" and "e \<noteq> Close w"
  shows "w \<in> clients (step s e) \<and> isAlive (sockets (step s e) w) = Some False"
proof (cases e)
  case (Message ws f)
  with assms onMessage_link [of s ws f w] onMessage_clients [of s ws f] show ?thesis
    by (simp add: step_def link_def)
next
  case PingTick
  with assms show ?thesis by (simp add: step_def pingInterval_def pingOne_dead)
qed (use assms in \<open>auto simp: step_def onPong_def onClose_def onConnection_def Let_def
       split: option.splits\<close>)

lemma run_keeps_dead:
  assumes "\<forall>e \<in> set es. e \<noteq> Pong w \<and> e \<noteq> Close w"
    and "w \<in> clients s" and "isAlive (sockets s w) = Some False"
  shows "w \<in> clients (run es s) \<and> isAlive (sockets (run es s) w) = Some False"
  using assms
proof (induction es arbitrary: s)
  case Nil
  then show ?case by (simp add: run_def)
next
  case (Cons e es)
  from Cons.prems have "w \<in> clients (step s e) \<and> isAlive (sockets (step s e) w) = Some False"
    by (intro step_keeps_dead) auto
  with Cons.IH [of "step s e"] Cons.prems(1) show ?case by (simp add: run_def)
qed

text \<open>
  \<^bold>\<open>C9\<close> (liveness sweep).  For a client \<open>w\<close> of the server: after a tick of the ping
  interval, events among which \<open>w\<close> neither answers with a pong nor closes, and the next
  tick, \<open>w\<close> has been terminated.  A tick pings every client whose flag is not false and
  does not terminate it; a pong sets the flag, and the tick after a pong does not
  terminate the socket.
\<close>

theorem liveness_sweep:
  assumes "w \<in> clients s"
  shows "((\<forall>e \<in> set es. e \<noteq> Pong w \<and> e \<noteq> Close w) \<longrightarrow>
           terminated (sockets (step (run es (step s PingTick)) PingTick) w)) \<and>
         (isAlive (sockets s w) \<noteq> Some False \<longrightarrow>
           pings (sockets (step s PingTick) w) = Suc (pings (sockets s w)) \<and>
           terminated (sockets (step s PingTick) w) = terminated (sockets s w)) \<and>
         isAlive (sockets (step s (Pong w)) w) = Some True \<and>
         terminated (sockets (step (step s (Pong w)) PingTick) w) = terminated (sockets s w)"
proof (intro conjI impI)
  assume quiet: "\<forall>e \<in> set es. e \<noteq> Pong w \<and> e \<noteq> Close w"
  have "w \<in> clients (step s PingTick) \<and> isAlive (sockets (step s PingTick) w) = Some False"
    using assms by (simp add: step_def pingInterval_def pingOne_dead)
  with run_keeps_dead [OF quiet, of "step s PingTick"]
  have "w \<in> clients (run es (step s PingTick))"
    and "isAlive (sockets (run es (step s PingTick)) w) = Some False"
    by simp_all
  then show "terminated (sockets (step (run es (step s PingTick)) PingTick) w)"
    by (simp add: step_def pingInterval_def pingOne_terminates)
next
  assume "isAlive (sockets s w) \<noteq> Some False"
  with assms show "pings (sockets (step s PingTick) w) = Suc (pings (sockets s w))"
    and "terminated (sockets (step s PingTick) w) = terminated (sockets s w)"
    by (simp_all add: step_def pingInterval_def pingOne_def)
next
  from assms show "isAlive (sockets (step s (Pong w)) w) = Some True"
    by (simp add: step_def onPong_def)
  from assms show "terminated (sockets (step (step s (Pong w)) PingTick) w) = terminated (sockets s w)"
    by (simp add: step_def onPong_def pingInterval_def pingOne_def)
qed

theorem liveness_sweep_witness:
  "terminated (sockets (run [PingTick, Message 1 inputFrame, PingTick] relay1) 1) \<and>
   \<not> terminated (sockets relay1 1) \<and>
   \<not> terminated (sockets (run [Pong 1, PingTick] relay1) 1) \<and>
   pings (sockets (step relay1 PingTick) 1) = 1"
proof -
  have c: "1 \<in> clients relay1" and a: "isAlive (sockets relay1 1) = Some True"
    and t: "\<not> terminated (sockets relay1 1)" and p: "pings (sockets relay1 1) = 0"
    by (simp_all add: relay1_def relay0_def step_def onConnection_def)
  have q: "\<forall>e \<in> set [Message 1 inputFrame]. e \<noteq> Pong 1 \<and> e \<noteq> Close 1" by simp
  from liveness_sweep [OF c, of "[Message 1 inputFrame]"] q a t p show ?thesis
    by (simp add: run_def)
qed

end
